theory Spec2Isabelle
  imports Main "HOL-Library.Sublist"
begin

section \<open>JavaScript strings\<close>

text \<open>
  A JavaScript string is modelled as a \<^typ>\<open>string\<close>: one \<^typ>\<open>char\<close> per code unit, for
  texts whose code units are below 256 (the configuration and manifest files are read
  byte-wise from a buffer). The functions below are the string methods the sources call.
\<close>

definition newline :: char where
  "newline = CHR 0x0A"

text \<open>\<^verbatim>\<open>s.includes(t)\<close>: \<open>t\<close> occurs in \<open>s\<close> as a contiguous run of code units.\<close>

fun includes_js :: "string \<Rightarrow> string \<Rightarrow> bool" where
  "includes_js [] t = (t = [])"
| "includes_js (c # cs) t = (prefix t (c # cs) \<or> includes_js cs t)"

text \<open>\<^verbatim>\<open>s.startsWith(t)\<close>.\<close>

definition startsWith :: "string \<Rightarrow> string \<Rightarrow> bool" where
  "startsWith s t = prefix t s"

text \<open>
  \<^verbatim>\<open>s.split('\n')\<close>: the pieces between the line feeds; the result is never empty
  (\<^verbatim>\<open>''.split('\n')\<close> is \<^verbatim>\<open>['']\<close>), and a text that ends with a line feed has a last,
  empty piece.
\<close>

fun split_lines :: "string \<Rightarrow> string list" where
  "split_lines [] = [[]]"
| "split_lines (c # cs) =
     (if c = newline then [] # split_lines cs
      else (case split_lines cs of
              [] \<Rightarrow> [[c]]
            | l # ls \<Rightarrow> (c # l) # ls))"

text \<open>\<^verbatim>\<open>lines.join('\n')\<close>.\<close>

fun join_lines :: "string list \<Rightarrow> string" where
  "join_lines [] = []"
| "join_lines [l] = l"
| "join_lines (l # l' # ls) = l @ newline # join_lines (l' # ls)"

text \<open>
  The white space \<^verbatim>\<open>trim\<close> removes, among the code units below 256: TAB, LF, VT, FF, CR,
  SPACE and NBSP.
\<close>

definition is_space :: "char \<Rightarrow> bool" where
  "is_space c = (c \<in> {CHR 0x09, CHR 0x0A, CHR 0x0B, CHR 0x0C, CHR 0x0D, CHR 0x20, CHR 0xA0})"

definition trim :: "string \<Rightarrow> string" where
  "trim s = rev (dropWhile is_space (rev (dropWhile is_space s)))"

section \<open>The configuration upsert (goldhen\_plugins\_fix.mjs)\<close>

text \<open>
  The loop of \<^verbatim>\<open>updateConfigSetting\<close>: the first line that includes \<open>setting\<close> becomes
  \<^verbatim>\<open>`${setting}=${value}`\<close> and the loop breaks; the flag is \<^verbatim>\<open>found\<close>.
\<close>

definition setting_line :: "string \<Rightarrow> string \<Rightarrow> string" where
  "setting_line setting val = setting @ ''='' @ val"

fun replace_first :: "string list \<Rightarrow> string \<Rightarrow> string \<Rightarrow> string list \<times> bool" where
  "replace_first [] setting val = ([], False)"
| "replace_first (l # ls) setting val =
     (if includes_js l setting then (setting_line setting val # ls, True)
      else (case replace_first ls setting val of
              (ls', found) \<Rightarrow> (l # ls', found)))"

definition updateConfigSetting :: "string \<Rightarrow> string \<Rightarrow> string \<Rightarrow> string" where
  "updateConfigSetting config_text setting val =
     (case replace_first (split_lines config_text) setting val of
        (lines, found) \<Rightarrow>
          join_lines (if \<not> found then lines @ [setting_line setting val] else lines))"

section \<open>The fix gate (goldhen\_plugins\_fix.mjs)\<close>

text \<open>
  \<^verbatim>\<open>localStorage\<close> and \<^verbatim>\<open>sessionStorage\<close>: \<^verbatim>\<open>getItem\<close> is the lookup (\<open>None\<close> for
  \<^verbatim>\<open>null\<close>), \<^verbatim>\<open>setItem\<close> the update, \<^verbatim>\<open>removeItem\<close> the removal of the key.
\<close>

type_synonym storage = "string \<rightharpoonup> string"

record flags =
  localStorage :: storage
  sessionStorage :: storage

definition shouldApplyPluginsFix :: "flags \<Rightarrow> bool" where
  "shouldApplyPluginsFix f =
     (if localStorage f ''goldhen_plugins_fixed'' = Some ''true'' then False
      else if sessionStorage f ''goldhen_plugins_fixed'' = Some ''true'' then False
      else True)"

definition markPluginsFixApplied :: "flags \<Rightarrow> flags" where
  "markPluginsFixApplied f =
     f\<lparr>localStorage := (localStorage f)(''goldhen_plugins_fixed'' \<mapsto> ''true''),
       sessionStorage := (sessionStorage f)(''goldhen_plugins_fixed'' \<mapsto> ''true'')\<rparr>"

definition resetPluginsFixFlag :: "flags \<Rightarrow> flags" where
  "resetPluginsFixFlag f =
     f\<lparr>localStorage := (localStorage f)(''goldhen_plugins_fixed'' := None),
       sessionStorage := (sessionStorage f)(''goldhen_plugins_fixed'' := None)\<rparr>"

definition displaySuccessMessage :: "string \<Rightarrow> flags \<Rightarrow> flags" where
  \<comment> \<open>the effect on the stores; \<open>message\<close> is the fixed text of the notification\<close>
  "displaySuccessMessage message f =
     f\<lparr>sessionStorage := (sessionStorage f)(''goldhen_fix_message'' \<mapsto> message)\<rparr>"

text \<open>
  The two \<^verbatim>\<open>removeItem('ExploitLoaded')\<close> calls of \<^verbatim>\<open>forceReapplyFix\<close>, which follow
  its \<^verbatim>\<open>resetPluginsFixFlag()\<close>.
\<close>

definition removeExploitLoaded :: "flags \<Rightarrow> flags" where
  "removeExploitLoaded f =
     f\<lparr>localStorage := (localStorage f)(''ExploitLoaded'' := None),
       sessionStorage := (sessionStorage f)(''ExploitLoaded'' := None)\<rparr>"

text \<open>
  Every write to the two stores in the sources is one of these four; a history of the
  stores is a list of them, oldest first.
\<close>

datatype flag_op = MarkApplied | ResetFlag | DisplayMessage string | RemoveExploitLoaded

fun flag_step :: "flag_op \<Rightarrow> flags \<Rightarrow> flags" where
  "flag_step MarkApplied f = markPluginsFixApplied f"
| "flag_step ResetFlag f = resetPluginsFixFlag f"
| "flag_step (DisplayMessage m) f = displaySuccessMessage m f"
| "flag_step RemoveExploitLoaded f = removeExploitLoaded f"

fun flag_run :: "flag_op list \<Rightarrow> flags \<Rightarrow> flags" where
  "flag_run [] f = f"
| "flag_run (op # ops) f = flag_run ops (flag_step op f)"

text \<open>The gate with the two stores queried in the other order.\<close>

definition shouldApply_session_first :: "flags \<Rightarrow> bool" where
  "shouldApply_session_first f =
     (if sessionStorage f ''goldhen_plugins_fixed'' = Some ''true'' then False
      else if localStorage f ''goldhen_plugins_fixed'' = Some ''true'' then False
      else True)"

definition empty_flags :: flags where
  "empty_flags = \<lparr>localStorage = Map.empty, sessionStorage = Map.empty\<rparr>"

section \<open>The raw I/O capability\<close>

text \<open>
  \<^verbatim>\<open>chain.sysi(name, ...)\<close> and \<^verbatim>\<open>Buffer\<close> come from modules outside these sources, so
  they are parameters of the model. A call is recorded by its name and arguments (the
  buffer of a \<^verbatim>\<open>read\<close> by its size); it returns a number or throws.
\<close>

datatype syscall =
    Open string int
  | Read int nat
  | Lseek int int int
  | Ftruncate int int
  | Write int string nat
  | Close int
  | Dynlib_get_list string int
  | Dynlib_unload_prx int
  | Dynlib_load_prx string int

datatype error = Error string

text \<open>
  What the program does to the outside, in order: the system calls it issues and the
  delays it awaits (\<^verbatim>\<open>sleep(ms)\<close>).
\<close>

datatype event = Sys syscall | Sleep nat

text \<open>
  The capability over a world \<open>'w\<close> of its own: \<open>sysi_of\<close> answers a call and moves the
  world on; \<open>read_string_of\<close> is \<^verbatim>\<open>buffer.read_string(n)\<close> on the buffer that the last
  \<^verbatim>\<open>read\<close> filled. The world does not contain the two flag stores.
\<close>

record 'w chain =
  sysi_of :: "'w \<Rightarrow> syscall \<Rightarrow> (error + int) \<times> 'w"
  read_string_of :: "'w \<Rightarrow> int \<Rightarrow> error + string"

record 'w io =
  world :: 'w
  trace :: "event list"

text \<open>
  A piece of program: from the state to a returned value (\<open>Inr\<close>) or a thrown exception
  (\<open>Inl\<close>), and the state after.
\<close>

type_synonym ('w, 'a) prog = "'w io \<Rightarrow> (error + 'a) \<times> 'w io"

definition retP :: "'a \<Rightarrow> ('w, 'a) prog" where
  "retP x s = (Inr x, s)"

definition bindP :: "('w, 'a) prog \<Rightarrow> ('a \<Rightarrow> ('w, 'b) prog) \<Rightarrow> ('w, 'b) prog" where
  "bindP m f s = (case m s of (Inl e, s') \<Rightarrow> (Inl e, s') | (Inr x, s') \<Rightarrow> f x s')"

text \<open>\<^verbatim>\<open>try { m } catch (error) { h }\<close>.\<close>

definition tryP :: "('w, 'a) prog \<Rightarrow> (error \<Rightarrow> ('w, 'a) prog) \<Rightarrow> ('w, 'a) prog" where
  "tryP m h s = (case m s of (Inl e, s') \<Rightarrow> h e s' | (Inr x, s') \<Rightarrow> (Inr x, s'))"

definition sysi :: "'w chain \<Rightarrow> syscall \<Rightarrow> ('w, int) prog" where
  "sysi ch c s =
     (case sysi_of ch (world s) c of
        (r, w') \<Rightarrow> (r, s\<lparr>world := w', trace := trace s @ [Sys c]\<rparr>))"

definition read_string :: "'w chain \<Rightarrow> int \<Rightarrow> ('w, string) prog" where
  "read_string ch n s = (read_string_of ch (world s) n, s)"

definition sleep :: "nat \<Rightarrow> ('w, unit) prog" where
  "sleep ms s = (Inr (), s\<lparr>trace := trace s @ [Sleep ms]\<rparr>)"

text \<open>\<^verbatim>\<open>for (const x of xs) { body }\<close>.\<close>

fun for_each :: "('a \<Rightarrow> ('w, unit) prog) \<Rightarrow> 'a list \<Rightarrow> ('w, unit) prog" where
  "for_each body [] = retP ()"
| "for_each body (x # xs) = bindP (body x) (\<lambda>_. for_each body xs)"

section \<open>The plugin reactivation (goldhen\_plugins\_fix.mjs)\<close>

datatype operation = Setting string string | Delay nat

record fix_payload =
  config_path :: string
  plugins_path :: string
  operations :: "operation list"

definition createPluginFixPayload :: fix_payload where
  "createPluginFixPayload =
     \<lparr>config_path = ''/data/GoldHEN/config.ini'',
      plugins_path = ''/data/GoldHEN/plugins.ini'',
      operations =
        [Setting ''enable_plugins_loader'' ''0'',
         Setting ''enable_game_patch_plugin'' ''0'',
         Delay 100,
         Setting ''enable_plugins_loader'' ''1'',
         Setting ''enable_game_patch_plugin'' ''1'']\<rparr>"

definition modifyGoldHENSetting ::
  "'w chain \<Rightarrow> string \<Rightarrow> string \<Rightarrow> string \<Rightarrow> ('w, bool) prog" where
  "modifyGoldHENSetting ch path setting val =
     tryP
       (bindP (sysi ch (Open path 0x602)) (\<lambda>fd.
          if fd < 0 then retP False
          else
            bindP (sysi ch (Read fd 0x4000)) (\<lambda>bytes_read.
            bindP
              (if bytes_read > 0 then
                 bindP (read_string ch bytes_read) (\<lambda>config_text.
                 bindP (retP (updateConfigSetting config_text setting val)) (\<lambda>updated_config.
                 bindP (sysi ch (Lseek fd 0 0)) (\<lambda>_.
                 bindP (sysi ch (Ftruncate fd 0)) (\<lambda>_.
                 bindP (sysi ch (Write fd updated_config (length updated_config))) (\<lambda>_.
                 retP ())))))
               else retP ()) (\<lambda>_.
            bindP (sysi ch (Close fd)) (\<lambda>_.
            retP True)))))
       (\<lambda>error. retP False)"

definition plugins_to_unload :: "string list" where
  "plugins_to_unload = [''game_patch.prx'', ''cheat_manager.prx'', ''browser_patch.prx'']"

text \<open>The body of the loop of \<^verbatim>\<open>unloadPlugins\<close>, with its own \<^verbatim>\<open>try\<close>.\<close>

definition unload_plugin :: "'w chain \<Rightarrow> string \<Rightarrow> ('w, unit) prog" where
  "unload_plugin ch plugin =
     tryP
       (bindP (sysi ch (Dynlib_get_list plugin 0)) (\<lambda>handle.
          if handle > 0 then bindP (sysi ch (Dynlib_unload_prx handle)) (\<lambda>_. retP ())
          else retP ()))
       (\<lambda>error. retP ())"

definition unloadPlugins :: "'w chain \<Rightarrow> ('w, unit) prog" where
  "unloadPlugins ch = for_each (unload_plugin ch) plugins_to_unload"

text \<open>The loop of \<^verbatim>\<open>parsePluginsList\<close>; \<open>plugin_paths\<close> is the array it pushes to.\<close>

fun parse_lines :: "string list \<Rightarrow> string list \<Rightarrow> string list" where
  "parse_lines [] plugin_paths = plugin_paths"
| "parse_lines (line # lines) plugin_paths =
     (let trimmed = trim line in
      if trimmed \<noteq> [] \<and> \<not> startsWith trimmed ''['' \<and> \<not> startsWith trimmed ''#''
         \<and> includes_js trimmed ''.prx''
      then parse_lines lines (plugin_paths @ [trimmed])
      else parse_lines lines plugin_paths)"

definition parsePluginsList :: "string \<Rightarrow> string list" where
  "parsePluginsList plugins_text = parse_lines (split_lines plugins_text) []"

text \<open>The body of the loop of \<^verbatim>\<open>loadPlugins\<close>, with its own \<^verbatim>\<open>try\<close>.\<close>

definition load_plugin :: "'w chain \<Rightarrow> string \<Rightarrow> ('w, unit) prog" where
  "load_plugin ch plugin_path =
     tryP
       (bindP (sysi ch (Dynlib_load_prx plugin_path 0)) (\<lambda>handle. retP ()))
       (\<lambda>error. retP ())"

definition loadPlugins :: "'w chain \<Rightarrow> string \<Rightarrow> ('w, unit) prog" where
  "loadPlugins ch path =
     tryP
       (bindP (sysi ch (Open path 0)) (\<lambda>fd.
          if fd \<ge> 0 then
            bindP (sysi ch (Read fd 0x1000)) (\<lambda>bytes_read.
            bindP (sysi ch (Close fd)) (\<lambda>_.
            if bytes_read > 0 then
              bindP (read_string ch bytes_read) (\<lambda>plugins_text.
              for_each (load_plugin ch) (parsePluginsList plugins_text))
            else retP ()))
          else retP ()))
       (\<lambda>error. retP ())"

definition forcePluginsReload :: "'w chain \<Rightarrow> fix_payload \<Rightarrow> ('w, bool) prog" where
  "forcePluginsReload ch fix_payload =
     tryP
       (bindP (unloadPlugins ch) (\<lambda>_.
        bindP (sleep 200) (\<lambda>_.
        bindP (loadPlugins ch (plugins_path fix_payload)) (\<lambda>_.
        bindP (sleep 200) (\<lambda>_.
        retP True)))))
       (\<lambda>error. retP False)"

text \<open>
  The body of the loop of \<^verbatim>\<open>reactivatePlugins\<close>. \<^verbatim>\<open>if (operation.delay)\<close> is false
  for a delay of 0, and the operation then goes on as a setting whose \<^verbatim>\<open>setting\<close> and
  \<^verbatim>\<open>value\<close> are \<^verbatim>\<open>undefined\<close>, which the string operations render as
  \<^verbatim>\<open>'undefined'\<close>.
\<close>

fun run_operation :: "'w chain \<Rightarrow> string \<Rightarrow> operation \<Rightarrow> ('w, unit) prog" where
  "run_operation ch path (Delay ms) =
     (if ms \<noteq> 0 then sleep ms
      else bindP (modifyGoldHENSetting ch path ''undefined'' ''undefined'') (\<lambda>_. sleep 50))"
| "run_operation ch path (Setting setting val) =
     bindP (modifyGoldHENSetting ch path setting val) (\<lambda>_. sleep 50)"

definition reactivatePlugins :: "'w chain \<Rightarrow> fix_payload \<Rightarrow> ('w, unit) prog" where
  "reactivatePlugins ch fix_payload =
     bindP (for_each (run_operation ch (config_path fix_payload)) (operations fix_payload)) (\<lambda>_.
     bindP (forcePluginsReload ch fix_payload) (\<lambda>_.
     retP ()))"

definition fixGoldHENPlugins :: "'w chain \<Rightarrow> ('w, bool) prog" where
  "fixGoldHENPlugins ch =
     tryP
       (bindP (reactivatePlugins ch createPluginFixPayload) (\<lambda>_. retP True))
       (\<lambda>error. retP False)"

section \<open>The configuration manager (goldhen\_config\_manager.mjs)\<close>

text \<open>The entries of \<^verbatim>\<open>OPTIMAL_GOLDHEN_CONFIG\<close>, in the order \<^verbatim>\<open>Object.entries\<close> lists them.\<close>

definition OPTIMAL_GOLDHEN_CONFIG :: "(string \<times> string) list" where
  "OPTIMAL_GOLDHEN_CONFIG =
     [(''enable_plugins_loader'', ''1''),
      (''enable_game_patch_plugin'', ''1''),
      (''enable_homebrew_blocker'', ''0''),
      (''enable_rest_mode_patch'', ''1''),
      (''enable_app_browser_patch'', ''1''),
      (''enable_ftp_server'', ''1''),
      (''ftp_port'', ''2121''),
      (''enable_network_dump'', ''0''),
      (''enable_bin_loader'', ''1''),
      (''bin_loader_port'', ''9020''),
      (''enable_game_compatibility_patch'', ''1''),
      (''enable_legacy_game_support'', ''1''),
      (''enable_cpu_temp_patch'', ''1''),
      (''enable_fan_control'', ''0''),
      (''enable_debug_log'', ''0''),
      (''enable_crash_dumps'', ''1'')]"

text \<open>The loop of \<^verbatim>\<open>createOptimalConfig\<close>: \<^verbatim>\<open>config_content += `${key}=${value}\n`\<close>.\<close>

fun append_entries :: "string \<Rightarrow> (string \<times> string) list \<Rightarrow> string" where
  "append_entries config_content [] = config_content"
| "append_entries config_content ((key, val) # entries) =
     append_entries (config_content @ key @ ''='' @ val @ [newline]) entries"

text \<open>
  \<^verbatim>\<open>createOptimalConfig()\<close>; \<open>now\<close> is the text \<^verbatim>\<open>new Date().toISOString()\<close> gives at the
  time of the call.
\<close>

definition createOptimalConfig :: "string \<Rightarrow> string" where
  "createOptimalConfig now =
     append_entries (''[Settings]'' @ [newline]) OPTIMAL_GOLDHEN_CONFIG
       @ ([newline] @ ''[Advanced]'' @ [newline])
       @ (''# Auto-generated optimal configuration for PSFree + GoldHEN'' @ [newline])
       @ (''# This configuration optimizes plugin loading for better game compatibility''
            @ [newline])
       @ (''# Generated on: '' @ now @ [newline])"

text \<open>
  The characters of an ISO 8601 time stamp as \<^verbatim>\<open>toISOString\<close> writes it
  (\<^verbatim>\<open>YYYY-MM-DDTHH:mm:ss.sssZ\<close>, with a sign before a six-digit year).
\<close>

definition iso_char :: "char \<Rightarrow> bool" where
  "iso_char c = (c \<in> set ''0123456789-+:.TZ'')"

record validation =
  isValid :: bool
  issues :: "string list"
  score :: int

definition validateGoldHENConfig :: "string \<Rightarrow> validation" where
  "validateGoldHENConfig config_text =
     (let issues0 = [];
          issues1 =
            (if \<not> includes_js config_text ''enable_plugins_loader=1''
             then issues0 @ [''Plugins loader disabled - games may not work properly'']
             else issues0);
          issues2 =
            (if \<not> includes_js config_text ''enable_game_patch_plugin=1''
             then issues1 @ [''Game patch plugin disabled - compatibility issues expected'']
             else issues1);
          issues3 =
            (if includes_js config_text ''enable_homebrew_blocker=1''
             then issues2 @ [''Homebrew blocker enabled - may cause conflicts'']
             else issues2);
          issues4 =
            (if \<not> includes_js config_text ''enable_ftp_server=1''
             then issues3 @ [''FTP server disabled - remote management unavailable'']
             else issues3)
      in \<lparr>isValid = (length issues4 = 0),
          issues = issues4,
          score = max 0 (100 - int (length issues4) * 20)\<rparr>)"

text \<open>\<^verbatim>\<open>DEFAULT_PLUGINS_CONFIG\<close>, the manifest the manager ships.\<close>

definition DEFAULT_PLUGINS_CONFIG :: string where
  "DEFAULT_PLUGINS_CONFIG =
     join_lines
       [''[default]'',
        ''/data/GoldHEN/plugins/game_patch.prx'',
        ''/data/GoldHEN/plugins/cheat_manager.prx'',
        '''',
        ''[CUSA00000]'',
        ''# Example game-specific plugin configuration'',
        ''# /data/GoldHEN/plugins/special_patch.prx'',
        '''']"

section \<open>The automatic fix (auto\_goldhen\_fix.mjs)\<close>

definition optimizeGoldHENConfig :: "'w chain \<Rightarrow> string \<Rightarrow> ('w, bool) prog" where
  "optimizeGoldHENConfig ch now =
     tryP
       (bindP (retP (createOptimalConfig now)) (\<lambda>optimalConfig.
        bindP (sysi ch (Open ''/data/GoldHEN/config.ini'' 0x601)) (\<lambda>fd.
          if fd \<ge> 0 then
            bindP (sysi ch (Write fd optimalConfig (length optimalConfig))) (\<lambda>_.
            bindP (sysi ch (Close fd)) (\<lambda>_.
            retP True))
          else retP False)))
       (\<lambda>error. retP False)"

record check_result =
  check_name :: string
  check_success :: bool
  check_details :: string

record verification =
  verify_success :: bool
  verify_checks :: "check_result list"
  verify_issues :: "check_result list"

text \<open>
  \<^verbatim>\<open>verifyFixApplication()\<close>. Its \<^verbatim>\<open>catch\<close> is for a \<^verbatim>\<open>getItem\<close> that throws; the
  lookups of the model do not.
\<close>

definition verifyFixApplication :: "flags \<Rightarrow> verification" where
  "verifyFixApplication f =
     (let localStorageFlag = (localStorage f ''goldhen_plugins_fixed'' = Some ''true'');
          sessionStorageFlag = (sessionStorage f ''goldhen_plugins_fixed'' = Some ''true'');
          goldhenLoaded = (localStorage f ''ExploitLoaded'' = Some ''yes'');
          checks =
            [\<lparr>check_name = ''LocalStorage flag'', check_success = localStorageFlag,
              check_details = (if localStorageFlag then ''Set correctly'' else ''Not set'')\<rparr>,
             \<lparr>check_name = ''SessionStorage flag'', check_success = sessionStorageFlag,
              check_details = (if sessionStorageFlag then ''Set correctly'' else ''Not set'')\<rparr>,
             \<lparr>check_name = ''GoldHEN loaded'', check_success = goldhenLoaded,
              check_details =
                (if goldhenLoaded then ''Loaded successfully'' else ''Not loaded'')\<rparr>]
      in \<lparr>verify_success = list_all check_success checks,
          verify_checks = checks,
          verify_issues = filter (\<lambda>check. \<not> check_success check) checks\<rparr>)"

text \<open>The four \<^verbatim>\<open>return\<close> statements of \<^verbatim>\<open>autoFixGoldHEN\<close>, in the order of the source.\<close>

datatype fix_result =
    Skipped
  | Applied bool verification
  | WithIssues "check_result list"
  | Failed error

fun result_success :: "fix_result \<Rightarrow> bool" where
  "result_success Skipped = True"
| "result_success (Applied pluginsFix verified) = True"
| "result_success (WithIssues is) = False"
| "result_success (Failed e) = False"

text \<open>
  \<^verbatim>\<open>autoFixGoldHEN(chain)\<close>, from the two stores \<open>f\<close> and the state of the capability to
  the result, the stores after and the state after. \<open>message\<close> is the text of
  \<^verbatim>\<open>displaySuccessMessage\<close> and \<open>now\<close> the time stamp of \<^verbatim>\<open>createOptimalConfig\<close>.
\<close>

definition autoFixGoldHEN ::
  "'w chain \<Rightarrow> string \<Rightarrow> string \<Rightarrow> flags \<Rightarrow> 'w io \<Rightarrow> (fix_result \<times> flags) \<times> 'w io" where
  "autoFixGoldHEN ch message now f s =
     (if \<not> shouldApplyPluginsFix f then ((Skipped, f), s)
      else
        (case bindP (sleep 1500) (\<lambda>_.
              bindP (fixGoldHENPlugins ch) (\<lambda>fixResult.
              bindP (optimizeGoldHENConfig ch now) (\<lambda>_.
              retP fixResult))) s of
           (Inl error, s') \<Rightarrow> ((Failed error, f), s')
         | (Inr fixResult, s') \<Rightarrow>
             (let verifyResult = verifyFixApplication f in
              if verify_success verifyResult
              then ((Applied fixResult verifyResult,
                     displaySuccessMessage message (markPluginsFixApplied f)), s')
              else ((WithIssues (verify_issues verifyResult), f), s'))))"

section \<open>The upsert as the specification words it\<close>

text \<open>
  The specification's reading of a line that defines a key: a \<^verbatim>\<open>key=value\<close> pair, the key
  first and the equals sign right after it.
\<close>

definition defines_key :: "string \<Rightarrow> string \<Rightarrow> bool" where
  "defines_key key line = prefix (key @ ''='') line"

text \<open>
  The specification's upsert: the first line that defines \<open>key\<close> is replaced in place;
  without one, the new line is appended. It differs from \<^const>\<open>replace_first\<close> in the test
  of a line only.
\<close>

fun spec_replace :: "string list \<Rightarrow> string \<Rightarrow> string \<Rightarrow> string list \<times> bool" where
  "spec_replace [] key val = ([], False)"
| "spec_replace (l # ls) key val =
     (if defines_key key l then (setting_line key val # ls, True)
      else (case spec_replace ls key val of
              (ls', found) \<Rightarrow> (l # ls', found)))"

definition spec_upsert :: "string \<Rightarrow> string \<Rightarrow> string \<Rightarrow> string" where
  "spec_upsert text key val =
     (case spec_replace (split_lines text) key val of
        (lines, found) \<Rightarrow>
          join_lines (if \<not> found then lines @ [setting_line key val] else lines))"

section \<open>Example documents\<close>

text \<open>A configuration whose loader switch is off, between a header and another setting.\<close>

definition config_loader_off :: string where
  "config_loader_off =
     join_lines [''[Settings]'', ''enable_plugins_loader=0'', ''ftp_port=2121'']"

text \<open>A configuration with a comment that names the loader switch before the setting.\<close>

definition config_commented :: string where
  "config_commented =
     join_lines [''# enable_plugins_loader: the loader switch'', ''enable_plugins_loader=0'']"

text \<open>A configuration with two different keys, one of which contains the other.\<close>

definition config_two_keys :: string where
  "config_two_keys =
     join_lines [''enable_plugins_loader_delay=5'', ''enable_plugins_loader=0'']"

section \<open>The manifest filter as the specification words it\<close>

text \<open>
  A trimmed line is a plugin path when it is not blank, does not start with \<^verbatim>\<open>[\<close> or
  \<^verbatim>\<open>#\<close>, and contains \<^verbatim>\<open>.prx\<close>.
\<close>

definition is_plugin_path :: "string \<Rightarrow> bool" where
  "is_plugin_path trimmed =
     (trimmed \<noteq> [] \<and> \<not> startsWith trimmed ''['' \<and> \<not> startsWith trimmed ''#''
      \<and> includes_js trimmed ''.prx'')"

section \<open>The required settings as the specification words them\<close>

text \<open>
  The three settings the validator requires, each as its \<^verbatim>\<open>key=value\<close> line. The blocker
  flag is not one of them: the validator asks for its absence.
\<close>

definition required_settings :: "string list" where
  "required_settings =
     [''enable_plugins_loader=1'', ''enable_game_patch_plugin=1'', ''enable_ftp_server=1'']"

text \<open>A document misses a required setting when none of its lines is that line.\<close>

definition missing_settings :: "string \<Rightarrow> string list" where
  "missing_settings text = filter (\<lambda>r. r \<notin> set (split_lines text)) required_settings"

text \<open>A configuration with the three required settings and the blocker switched on.\<close>

definition config_with_blocker :: string where
  "config_with_blocker =
     join_lines [''enable_plugins_loader=1'', ''enable_game_patch_plugin=1'',
       ''enable_ftp_server=1'', ''enable_homebrew_blocker=1'']"

text \<open>
  A configuration none of whose lines is a required setting: a comment, a setting with
  another value and a setting with another key.
\<close>

definition config_lookalikes :: string where
  "config_lookalikes =
     join_lines [''# enable_plugins_loader=1'', ''enable_game_patch_plugin=10'',
       ''my_enable_ftp_server=1'']"

text \<open>A configuration with two of the three required settings.\<close>

definition config_without_ftp :: string where
  "config_without_ftp =
     join_lines [''[Settings]'', ''enable_plugins_loader=1'', ''enable_game_patch_plugin=1'',
       ''enable_ftp_server=0'']"

section \<open>Reading a trace\<close>

text \<open>The events of a trace by kind: the file calls, the two calls of an unload attempt
  (\<^verbatim>\<open>dynlib_get_list\<close>, then \<^verbatim>\<open>dynlib_unload_prx\<close> on the handle found) and the load call.\<close>

fun is_file_call :: "event \<Rightarrow> bool" where
  "is_file_call (Sys (Open path flags)) = True"
| "is_file_call (Sys (Read fd n)) = True"
| "is_file_call (Sys (Lseek fd offset whence)) = True"
| "is_file_call (Sys (Ftruncate fd len)) = True"
| "is_file_call (Sys (Write fd text len)) = True"
| "is_file_call (Sys (Close fd)) = True"
| "is_file_call e = False"

fun is_unload_attempt :: "event \<Rightarrow> bool" where
  "is_unload_attempt (Sys (Dynlib_get_list plugin flags)) = True"
| "is_unload_attempt (Sys (Dynlib_unload_prx handle)) = True"
| "is_unload_attempt e = False"

fun is_load_call :: "event \<Rightarrow> bool" where
  "is_load_call (Sys (Dynlib_load_prx path flags)) = True"
| "is_load_call e = False"

fun is_rewrite_call :: "event \<Rightarrow> bool" where
  "is_rewrite_call (Sys (Lseek fd offset whence)) = True"
| "is_rewrite_call (Sys (Ftruncate fd len)) = True"
| "is_rewrite_call (Sys (Write fd text len)) = True"
| "is_rewrite_call e = False"

text \<open>The plugins looked up for unloading, in the order of the lookups.\<close>

fun lookups :: "event list \<Rightarrow> string list" where
  "lookups [] = []"
| "lookups (Sys (Dynlib_get_list plugin flags) # es) = plugin # lookups es"
| "lookups (e # es) = lookups es"

text \<open>A write, if the event is one, writes a text with the line \<open>l\<close> in it.\<close>

fun writes_line :: "string \<Rightarrow> event \<Rightarrow> bool" where
  "writes_line l (Sys (Write fd text len)) = includes_js text l"
| "writes_line l e = True"

text \<open>
  The events of one setting operation on the file at \<open>path\<close>: they start with the open
  of that file for reading and writing, are file calls only, and write nothing but a
  text with the line \<^verbatim>\<open>setting=value\<close>.
\<close>

definition setting_segment :: "string \<Rightarrow> string \<Rightarrow> string \<Rightarrow> event list \<Rightarrow> bool" where
  "setting_segment path setting val t =
     (take 1 t = [Sys (Open path 0x602)] \<and> list_all is_file_call t \<and>
      list_all (writes_line (setting_line setting val)) t)"

text \<open>
  The events of the unload step: unload attempts only, with one lookup for each plugin
  of the fixed set, in its order.
\<close>

definition unload_segment :: "event list \<Rightarrow> bool" where
  "unload_segment t = (list_all is_unload_attempt t \<and> lookups t = plugins_to_unload)"

text \<open>The events of the reload step: file calls on the manifest and load calls only.\<close>

definition load_segment :: "event list \<Rightarrow> bool" where
  "load_segment t = list_all (\<lambda>e. is_file_call e \<or> is_load_call e) t"

section \<open>A scripted capability\<close>

text \<open>
  Modelled from the spec: the raw I/O capability (\<^verbatim>\<open>module/chain.mjs\<close> and
  \<^verbatim>\<open>module/view.mjs\<close> are not among the sources). By section 4.1 each operation may fail
  and reports it by a sentinel or an error. This stand-in answers the calls from a list
  of replies, in order, and with 0 when the list is used up; its buffer holds a fixed
  text, of which \<^verbatim>\<open>read_string(n)\<close> gives the first \<open>n\<close> characters. It serves the
  concrete runs below only; the general theorems hold for every capability.
\<close>

record script =
  replies :: "(error + int) list"
  buffer_text :: string

definition scripted :: "script chain" where
  "scripted =
     \<lparr>sysi_of = (\<lambda>w c. case replies w of
                           [] \<Rightarrow> (Inr 0, w)
                         | r # rs \<Rightarrow> (r, w\<lparr>replies := rs\<rparr>)),
      read_string_of = (\<lambda>w n. Inr (take (nat n) (buffer_text w)))\<rparr>"

definition start :: "(error + int) list \<Rightarrow> string \<Rightarrow> script io" where
  "start rs text = \<lparr>world = \<lparr>replies = rs, buffer_text = text\<rparr>, trace = []\<rparr>"

text \<open>
  A run of the reactivation against the scripted capability. Each of the four setting
  operations opens the configuration as descriptor 3, reads nothing and closes; the first
  plugin is found loaded with handle 9 and unloaded, the second is not found, the lookup
  of the third throws; the manifest opens as descriptor 4 and its read fills the buffer
  with one path, which is then loaded.
\<close>

definition run_replies :: "(error + int) list" where
  "run_replies =
     [Inr 3, Inr 0, Inr 0,  Inr 3, Inr 0, Inr 0,  Inr 3, Inr 0, Inr 0,  Inr 3, Inr 0, Inr 0,
      Inr 9, Inr 0, Inr 0, Inl (Error ''ESRCH''),
      Inr 4, Inr 36, Inr 0, Inr 11]"

definition run_manifest :: string where
  "run_manifest = ''/data/GoldHEN/plugins/game_patch.prx''"

text \<open>The events of that run before its load call, as the theorems below compute them.\<close>

definition run_before_load :: "event list" where
  "run_before_load =
     [Sys (Open ''/data/GoldHEN/config.ini'' 0x602), Sys (Read 3 0x4000), Sys (Close 3),
      Sleep 50,
      Sys (Open ''/data/GoldHEN/config.ini'' 0x602), Sys (Read 3 0x4000), Sys (Close 3),
      Sleep 50, Sleep 100,
      Sys (Open ''/data/GoldHEN/config.ini'' 0x602), Sys (Read 3 0x4000), Sys (Close 3),
      Sleep 50,
      Sys (Open ''/data/GoldHEN/config.ini'' 0x602), Sys (Read 3 0x4000), Sys (Close 3),
      Sleep 50,
      Sys (Dynlib_get_list ''game_patch.prx'' 0), Sys (Dynlib_unload_prx 9),
      Sys (Dynlib_get_list ''cheat_manager.prx'' 0),
      Sys (Dynlib_get_list ''browser_patch.prx'' 0),
      Sleep 200,
      Sys (Open ''/data/GoldHEN/plugins.ini'' 0), Sys (Read 4 0x1000), Sys (Close 4)]"

section \<open>Properties\<close>

subsection \<open>Lines and substrings\<close>

lemma includes_js_sublist: "includes_js s t = sublist t s"
  by (induction s) (auto simp: sublist_Cons_right)

lemma split_lines_not_Nil: "split_lines t \<noteq> []"
  by (induction t) (auto split: list.splits)

lemma join_split_lines: "join_lines (split_lines t) = t"
proof (induction t)
  case Nil
  then show ?case by simp
next
  case (Cons c cs)
  obtain l ls where eq: "split_lines cs = l # ls"
    using split_lines_not_Nil [of cs] by (cases "split_lines cs") auto
  with Cons show ?case
    by (cases ls) auto
qed

lemma split_lines_no_newline: "l \<in> set (split_lines t) \<Longrightarrow> newline \<notin> set l"
proof (induction t arbitrary: l)
  case Nil
  then show ?case by simp
next
  case (Cons c cs)
  then show ?case
    by (auto split: if_splits list.splits)
qed

lemma split_lines_line: "newline \<notin> set l \<Longrightarrow> split_lines l = [l]"
  by (induction l) auto

lemma split_lines_append:
  "newline \<notin> set l \<Longrightarrow> split_lines (l @ newline # t) = l # split_lines t"
  by (induction l) auto

lemma split_join_lines:
  "ls \<noteq> [] \<Longrightarrow> \<forall>l\<in>set ls. newline \<notin> set l \<Longrightarrow> split_lines (join_lines ls) = ls"
proof (induction ls rule: join_lines.induct)
  case 1
  then show ?case by simp
next
  case (2 l)
  then show ?case by (simp add: split_lines_line)
next
  case (3 l l' ls)
  then show ?case by (simp add: split_lines_append)
qed

lemma join_lines_snoc: "ls \<noteq> [] \<Longrightarrow> join_lines (ls @ [x]) = join_lines ls @ newline # x"
  by (induction ls rule: join_lines.induct) auto

lemma replace_first_none:
  "\<forall>l\<in>set ls. \<not> includes_js l key \<Longrightarrow> replace_first ls key val = (ls, False)"
  by (induction ls) auto

lemma replace_first_at:
  "\<forall>x\<in>set pre. \<not> includes_js x key \<Longrightarrow> includes_js l key \<Longrightarrow>
   replace_first (pre @ l # post) key val = (pre @ setting_line key val # post, True)"
  by (induction pre) auto

lemma sublist_join_lines: "l \<in> set ls \<Longrightarrow> sublist l (join_lines ls)"
proof (induction ls rule: join_lines.induct)
  case 1
  then show ?case by simp
next
  case (2 x)
  then show ?case by simp
next
  case (3 x y ys)
  show ?case
  proof (cases "l = x")
    case True
    then show ?thesis by simp
  next
    case False
    with 3 have "sublist l (join_lines (y # ys))" by simp
    then have "sublist l ((x @ [newline]) @ join_lines (y # ys))"
      unfolding sublist_append [of l "x @ [newline]"] by simp
    then show ?thesis by simp
  qed
qed

subsection \<open>The upsert\<close>

lemma ex_first_line:
  "(\<forall>l\<in>set ls. \<not> includes_js l key) \<or>
   (\<exists>pre l post. ls = pre @ l # post \<and> (\<forall>x\<in>set pre. \<not> includes_js x key) \<and> includes_js l key)"
proof (cases "\<exists>l\<in>set ls. includes_js l key")
  case True
  from split_list_first_prop [OF True] show ?thesis
    by blast
next
  case False
  then show ?thesis by blast
qed

lemma update_append:
  assumes "\<forall>l\<in>set (split_lines text). \<not> includes_js l key"
  shows "updateConfigSetting text key val = text @ newline # setting_line key val"
  using assms
  by (simp add: updateConfigSetting_def replace_first_none join_lines_snoc
      split_lines_not_Nil join_split_lines)

lemma update_replace:
  assumes "split_lines text = pre @ l # post"
    and "\<forall>x\<in>set pre. \<not> includes_js x key"
    and "includes_js l key"
  shows "updateConfigSetting text key val = join_lines (pre @ setting_line key val # post)"
  using assms
  by (simp add: updateConfigSetting_def replace_first_at)

text \<open>
  C2, as amended. The upsert tests a line for containing the key, not for defining it:
  when no line of the document contains \<open>key\<close>, the result is the document followed by a
  line feed and \<^verbatim>\<open>key=value\<close>; otherwise the first line that contains \<open>key\<close> becomes
  \<^verbatim>\<open>key=value\<close> in place, and the lines before and after it are unchanged.
\<close>

theorem upsert_first_containing_line:
  "((\<forall>l\<in>set (split_lines text). \<not> includes_js l key) \<longrightarrow>
      updateConfigSetting text key val = text @ newline # setting_line key val) \<and>
   (split_lines text = pre @ l # post \<and> (\<forall>x\<in>set pre. \<not> includes_js x key) \<and>
    includes_js l key \<longrightarrow>
      updateConfigSetting text key val = join_lines (pre @ setting_line key val # post))"
  using update_append update_replace by blast

theorem upsert_first_containing_line_witness:
  "updateConfigSetting ''[Settings]'' ''enable_ftp_server'' ''1'' =
     ''[Settings]'' @ newline # ''enable_ftp_server=1'' \<and>
   updateConfigSetting config_loader_off ''enable_plugins_loader'' ''1'' =
     join_lines [''[Settings]'', ''enable_plugins_loader=1'', ''ftp_port=2121'']"
proof -
  have none: "\<forall>l\<in>set (split_lines ''[Settings]''). \<not> includes_js l ''enable_ftp_server''"
    by (simp add: newline_def)
  have lines: "split_lines config_loader_off =
      [''[Settings]''] @ ''enable_plugins_loader=0'' # [''ftp_port=2121'']"
    by (simp add: config_loader_off_def newline_def)
  have before: "\<forall>x\<in>set [''[Settings]'']. \<not> includes_js x ''enable_plugins_loader''"
    by simp
  have here: "includes_js ''enable_plugins_loader=0'' ''enable_plugins_loader''"
    by simp
  have a: "updateConfigSetting ''[Settings]'' ''enable_ftp_server'' ''1'' =
      ''[Settings]'' @ newline # setting_line ''enable_ftp_server'' ''1''"
    using none upsert_first_containing_line [of "''[Settings]''" "''enable_ftp_server''"]
    by blast
  have b: "updateConfigSetting config_loader_off ''enable_plugins_loader'' ''1'' =
      join_lines ([''[Settings]''] @ setting_line ''enable_plugins_loader'' ''1''
                    # [''ftp_port=2121''])"
    using lines before here
      upsert_first_containing_line [of config_loader_off "''enable_plugins_loader''"
        "''1''" "[''[Settings]'']" "''enable_plugins_loader=0''" "[''ftp_port=2121'']"]
    by blast
  from a b show ?thesis
    by (simp add: setting_line_def)
qed

text \<open>
  C2 as stated fails: in \<^const>\<open>config_commented\<close> the second line defines the key, and the
  upsert rewrites the comment above it instead, leaving the defining line as it was.
\<close>

theorem upsert_defining_line_counterexample:
  "defines_key ''enable_plugins_loader'' (split_lines config_commented ! 1) \<and>
   updateConfigSetting config_commented ''enable_plugins_loader'' ''1'' =
     join_lines [''enable_plugins_loader=1'', ''enable_plugins_loader=0''] \<and>
   spec_upsert config_commented ''enable_plugins_loader'' ''1'' =
     join_lines [''# enable_plugins_loader: the loader switch'', ''enable_plugins_loader=1''] \<and>
   updateConfigSetting config_commented ''enable_plugins_loader'' ''1'' \<noteq>
     spec_upsert config_commented ''enable_plugins_loader'' ''1''"
  by (simp add: config_commented_def newline_def updateConfigSetting_def spec_upsert_def
      setting_line_def defines_key_def)

lemma setting_line_no_newline:
  "newline \<notin> set key \<Longrightarrow> newline \<notin> set val \<Longrightarrow> newline \<notin> set (setting_line key val)"
  by (simp add: setting_line_def newline_def)

lemma setting_line_includes: "includes_js (setting_line key val) key"
  by (simp add: includes_js_sublist setting_line_def)

lemma setting_line_defines: "defines_key key (setting_line key val)"
  by (simp add: defines_key_def setting_line_def)

lemma defines_includes: "defines_key key l \<Longrightarrow> includes_js l key"
  unfolding defines_key_def includes_js_sublist
  by (metis prefix_def sublist_appendI append_Nil append_assoc)

lemma lines_after_append:
  assumes "newline \<notin> set key" and "newline \<notin> set val"
    and "\<forall>l\<in>set (split_lines text). \<not> includes_js l key"
  shows "split_lines (updateConfigSetting text key val) = split_lines text @ [setting_line key val]"
proof -
  have "updateConfigSetting text key val = join_lines (split_lines text @ [setting_line key val])"
    using assms(3) by (simp add: updateConfigSetting_def replace_first_none)
  moreover have "\<forall>l\<in>set (split_lines text @ [setting_line key val]). newline \<notin> set l"
    using assms(1,2) by (auto simp: split_lines_no_newline setting_line_no_newline)
  ultimately show ?thesis
    by (simp add: split_join_lines)
qed

lemma lines_after_replace:
  assumes "newline \<notin> set key" and "newline \<notin> set val"
    and "split_lines text = pre @ l # post"
    and "\<forall>x\<in>set pre. \<not> includes_js x key"
    and "includes_js l key"
  shows "split_lines (updateConfigSetting text key val) = pre @ setting_line key val # post"
proof -
  have "\<forall>x\<in>set (split_lines text). newline \<notin> set x"
    by (simp add: split_lines_no_newline)
  with assms(3) have "\<forall>x\<in>set (pre @ setting_line key val # post). newline \<notin> set x"
    using assms(1,2) by (auto simp: setting_line_no_newline)
  then have "split_lines (join_lines (pre @ setting_line key val # post)) =
      pre @ setting_line key val # post"
    by (simp add: split_join_lines)
  with update_replace [OF assms(3,4,5)] show ?thesis
    by simp
qed

lemma update_twice:
  assumes "newline \<notin> set key" and "newline \<notin> set val1"
  shows "updateConfigSetting (updateConfigSetting text key val1) key val2 =
         updateConfigSetting text key val2"
proof -
  consider (none) "\<forall>l\<in>set (split_lines text). \<not> includes_js l key"
    | (some) pre l post where "split_lines text = pre @ l # post"
        "\<forall>x\<in>set pre. \<not> includes_js x key" "includes_js l key"
    using ex_first_line [of "split_lines text" key] by blast
  then show ?thesis
  proof cases
    case none
    have "split_lines (updateConfigSetting text key val1) =
        split_lines text @ setting_line key val1 # []"
      using lines_after_append [OF assms none] by simp
    from update_replace [OF this none setting_line_includes]
    have "updateConfigSetting (updateConfigSetting text key val1) key val2 =
        join_lines (split_lines text @ [setting_line key val2])" .
    also have "\<dots> = updateConfigSetting text key val2"
      using none by (simp add: updateConfigSetting_def replace_first_none)
    finally show ?thesis .
  next
    case some
    from update_replace [OF lines_after_replace [OF assms some] some(2) setting_line_includes]
    have "updateConfigSetting (updateConfigSetting text key val1) key val2 =
        join_lines (pre @ setting_line key val2 # post)" .
    with update_replace [OF some] show ?thesis
      by simp
  qed
qed

lemma filter_defines_none:
  "\<forall>l\<in>set ls. \<not> includes_js l key \<Longrightarrow> filter (defines_key key) ls = []"
  by (induction ls) (auto dest: defines_includes)

text \<open>
  C3, as amended. For a key and values without a line feed: the upsert applied twice
  gives what it gives applied once, and the upsert of \<open>val1\<close> followed by that of \<open>val2\<close>
  gives what the upsert of \<open>val2\<close> alone gives. The lines of the result that define the
  key are the line \<^verbatim>\<open>key=val2\<close> the upsert wrote, followed by the lines after the
  replaced one that defined the key already; so there is exactly one, with value
  \<open>val2\<close>, when no line after the first line containing the key defines it.
\<close>

theorem upsert_idempotent:
  assumes "newline \<notin> set key" and "newline \<notin> set val1" and "newline \<notin> set val2"
  shows
    "updateConfigSetting (updateConfigSetting text key val1) key val1 =
       updateConfigSetting text key val1 \<and>
     updateConfigSetting (updateConfigSetting text key val1) key val2 =
       updateConfigSetting text key val2 \<and>
     ((\<forall>l\<in>set (split_lines text). \<not> includes_js l key) \<longrightarrow>
        filter (defines_key key)
          (split_lines (updateConfigSetting (updateConfigSetting text key val1) key val2)) =
        [setting_line key val2]) \<and>
     (split_lines text = pre @ l # post \<and> (\<forall>x\<in>set pre. \<not> includes_js x key) \<and>
      includes_js l key \<longrightarrow>
        filter (defines_key key)
          (split_lines (updateConfigSetting (updateConfigSetting text key val1) key val2)) =
        setting_line key val2 # filter (defines_key key) post)"
proof -
  have twice: "updateConfigSetting (updateConfigSetting text key val1) key v =
      updateConfigSetting text key v" for v
    using assms(1,2) by (rule update_twice)
  have none: "filter (defines_key key) (split_lines (updateConfigSetting text key val2)) =
      [setting_line key val2]"
    if "\<forall>l\<in>set (split_lines text). \<not> includes_js l key"
    using lines_after_append [OF assms(1,3) that] that
    by (simp add: filter_defines_none setting_line_defines)
  have some: "filter (defines_key key) (split_lines (updateConfigSetting text key val2)) =
      setting_line key val2 # filter (defines_key key) post"
    if "split_lines text = pre @ l # post" "\<forall>x\<in>set pre. \<not> includes_js x key"
      "includes_js l key"
    using lines_after_replace [OF assms(1,3) that] that(2)
    by (simp add: filter_defines_none setting_line_defines)
  from twice none some show ?thesis
    by simp
qed

theorem upsert_idempotent_witness:
  "updateConfigSetting (updateConfigSetting config_loader_off ''enable_plugins_loader'' ''0'')
       ''enable_plugins_loader'' ''0'' =
     updateConfigSetting config_loader_off ''enable_plugins_loader'' ''0'' \<and>
   updateConfigSetting (updateConfigSetting config_loader_off ''enable_plugins_loader'' ''0'')
       ''enable_plugins_loader'' ''1'' =
     join_lines [''[Settings]'', ''enable_plugins_loader=1'', ''ftp_port=2121''] \<and>
   filter (defines_key ''enable_plugins_loader'')
     (split_lines
        (updateConfigSetting
           (updateConfigSetting config_loader_off ''enable_plugins_loader'' ''0'')
           ''enable_plugins_loader'' ''1'')) =
     [''enable_plugins_loader=1''] \<and>
   filter (defines_key ''enable_ftp_server'')
     (split_lines
        (updateConfigSetting (updateConfigSetting ''[Settings]'' ''enable_ftp_server'' ''0'')
           ''enable_ftp_server'' ''1'')) =
     [''enable_ftp_server=1'']"
proof -
  have k: "newline \<notin> set ''enable_plugins_loader''" "newline \<notin> set ''enable_ftp_server''"
    and v: "newline \<notin> set ''0''" "newline \<notin> set ''1''"
    by (simp_all add: newline_def)
  have none: "\<forall>l\<in>set (split_lines ''[Settings]''). \<not> includes_js l ''enable_ftp_server''"
    by (simp add: newline_def)
  have some: "split_lines config_loader_off =
        [''[Settings]''] @ ''enable_plugins_loader=0'' # [''ftp_port=2121''] \<and>
      (\<forall>x\<in>set [''[Settings]'']. \<not> includes_js x ''enable_plugins_loader'') \<and>
      includes_js ''enable_plugins_loader=0'' ''enable_plugins_loader''"
    by (simp add: config_loader_off_def newline_def)
  have once: "updateConfigSetting config_loader_off ''enable_plugins_loader'' ''1'' =
      join_lines [''[Settings]'', ''enable_plugins_loader=1'', ''ftp_port=2121'']"
    by (simp add: config_loader_off_def newline_def updateConfigSetting_def setting_line_def)
  have rest: "filter (defines_key ''enable_plugins_loader'') [''ftp_port=2121''] = []"
    by (simp add: defines_key_def)
  have line1: "setting_line ''enable_plugins_loader'' ''1'' = ''enable_plugins_loader=1''"
    and line2: "setting_line ''enable_ftp_server'' ''1'' = ''enable_ftp_server=1''"
    by (simp_all add: setting_line_def)
  note a = upsert_idempotent [OF k(1) v(1) v(2), of config_loader_off "[''[Settings]'']"
      "''enable_plugins_loader=0''" "[''ftp_port=2121'']"]
  note b = upsert_idempotent [OF k(2) v(1) v(2), of "''[Settings]''"]
  from a have a1: "updateConfigSetting
        (updateConfigSetting config_loader_off ''enable_plugins_loader'' ''0'')
        ''enable_plugins_loader'' ''0'' =
      updateConfigSetting config_loader_off ''enable_plugins_loader'' ''0''"
    by (rule conjunct1)
  from a have a2: "updateConfigSetting
        (updateConfigSetting config_loader_off ''enable_plugins_loader'' ''0'')
        ''enable_plugins_loader'' ''1'' =
      updateConfigSetting config_loader_off ''enable_plugins_loader'' ''1''"
    by (rule conjunct1 [OF conjunct2])
  from a some have a3: "filter (defines_key ''enable_plugins_loader'')
      (split_lines
        (updateConfigSetting
           (updateConfigSetting config_loader_off ''enable_plugins_loader'' ''0'')
           ''enable_plugins_loader'' ''1'')) =
      setting_line ''enable_plugins_loader'' ''1''
        # filter (defines_key ''enable_plugins_loader'') [''ftp_port=2121'']"
    by (rule mp [OF conjunct2 [OF conjunct2 [OF conjunct2]]])
  from b none have b3: "filter (defines_key ''enable_ftp_server'')
      (split_lines
        (updateConfigSetting (updateConfigSetting ''[Settings]'' ''enable_ftp_server'' ''0'')
           ''enable_ftp_server'' ''1'')) =
      [setting_line ''enable_ftp_server'' ''1'']"
    by (rule mp [OF conjunct1 [OF conjunct2 [OF conjunct2]]])
  note a2' = trans [OF a2 once]
  note a3' = a3 [unfolded rest line1]
  note b3' = b3 [unfolded line2]
  show ?thesis
    by (intro conjI a1 a2' a3' b3')
qed

text \<open>
  C3 as stated fails: \<^const>\<open>config_two_keys\<close> defines each of its two keys once, and after
  the upserts of \<^verbatim>\<open>'0'\<close> and \<^verbatim>\<open>'1'\<close> two lines define the loader switch, the second
  still with the value \<^verbatim>\<open>'0'\<close>.
\<close>

theorem upsert_one_line_counterexample:
  "filter (defines_key ''enable_plugins_loader'') (split_lines config_two_keys) =
     [''enable_plugins_loader=0''] \<and>
   filter (defines_key ''enable_plugins_loader'')
     (split_lines
        (updateConfigSetting
           (updateConfigSetting config_two_keys ''enable_plugins_loader'' ''0'')
           ''enable_plugins_loader'' ''1'')) =
     [''enable_plugins_loader=1'', ''enable_plugins_loader=0'']"
  by (simp add: config_two_keys_def newline_def updateConfigSetting_def setting_line_def
      defines_key_def)

subsection \<open>The fix gate\<close>

lemma fixed_after_mark:
  "localStorage (markPluginsFixApplied f) ''goldhen_plugins_fixed'' = Some ''true''"
  by (simp add: markPluginsFixApplied_def)

lemma flag_step_keeps_local:
  assumes "op \<noteq> ResetFlag"
    and "localStorage f ''goldhen_plugins_fixed'' = Some ''true''"
  shows "localStorage (flag_step op f) ''goldhen_plugins_fixed'' = Some ''true''"
  using assms
  by (cases op)
     (simp_all add: markPluginsFixApplied_def displaySuccessMessage_def removeExploitLoaded_def)

lemma flag_run_keeps_local:
  assumes "ResetFlag \<notin> set ops"
    and "localStorage f ''goldhen_plugins_fixed'' = Some ''true''"
  shows "localStorage (flag_run ops f) ''goldhen_plugins_fixed'' = Some ''true''"
  using assms
proof (induction ops arbitrary: f)
  case Nil
  then show ?case by simp
next
  case (Cons op ops)
  from Cons.prems have "op \<noteq> ResetFlag" and rest: "ResetFlag \<notin> set ops"
    by auto
  with Cons.prems have "localStorage (flag_step op f) ''goldhen_plugins_fixed'' = Some ''true''"
    by (simp add: flag_step_keeps_local)
  with rest show ?case
    by (simp add: Cons.IH)
qed

text \<open>
  C4. The gate answers false exactly when the durable store or the session store holds
  the flag \<^verbatim>\<open>'true'\<close>, whichever store is asked first. After \<^verbatim>\<open>markPluginsFixApplied\<close>
  it answers false after every history of store writes without a reset, and right after
  \<^verbatim>\<open>resetPluginsFixFlag\<close> it answers true again.
\<close>

theorem gate_suppresses_rerun:
  "((shouldApplyPluginsFix f = False) =
      (localStorage f ''goldhen_plugins_fixed'' = Some ''true'' \<or>
       sessionStorage f ''goldhen_plugins_fixed'' = Some ''true'')) \<and>
   shouldApplyPluginsFix f = shouldApply_session_first f \<and>
   (ResetFlag \<notin> set ops \<longrightarrow>
      shouldApplyPluginsFix (flag_run ops (markPluginsFixApplied f)) = False) \<and>
   shouldApplyPluginsFix (resetPluginsFixFlag (flag_run ops (markPluginsFixApplied f))) = True"
proof -
  have iff: "(shouldApplyPluginsFix f = False) =
     (localStorage f ''goldhen_plugins_fixed'' = Some ''true'' \<or>
      sessionStorage f ''goldhen_plugins_fixed'' = Some ''true'')"
    by (simp add: shouldApplyPluginsFix_def)
  have order: "shouldApplyPluginsFix f = shouldApply_session_first f"
    by (simp add: shouldApplyPluginsFix_def shouldApply_session_first_def)
  have until: "shouldApplyPluginsFix (flag_run ops (markPluginsFixApplied f)) = False"
    if "ResetFlag \<notin> set ops"
    using flag_run_keeps_local [OF that fixed_after_mark]
    by (simp add: shouldApplyPluginsFix_def)
  have after: "shouldApplyPluginsFix (resetPluginsFixFlag (flag_run ops (markPluginsFixApplied f))) = True"
    by (simp add: shouldApplyPluginsFix_def resetPluginsFixFlag_def)
  from iff order until after show ?thesis
    by blast
qed

theorem gate_suppresses_rerun_witness:
  "ResetFlag \<notin> set [DisplayMessage ''done'', RemoveExploitLoaded, MarkApplied] \<and>
   shouldApplyPluginsFix empty_flags = True \<and>
   shouldApplyPluginsFix
     (flag_run [DisplayMessage ''done'', RemoveExploitLoaded, MarkApplied]
        (markPluginsFixApplied empty_flags)) = False \<and>
   shouldApplyPluginsFix
     (resetPluginsFixFlag
        (flag_run [DisplayMessage ''done'', RemoveExploitLoaded, MarkApplied]
           (markPluginsFixApplied empty_flags))) = True"
proof -
  have h: "ResetFlag \<notin> set [DisplayMessage ''done'', RemoveExploitLoaded, MarkApplied]"
    by simp
  have a: "shouldApplyPluginsFix empty_flags = True"
    by (simp add: shouldApplyPluginsFix_def empty_flags_def)
  from h a
    gate_suppresses_rerun
      [of empty_flags "[DisplayMessage ''done'', RemoveExploitLoaded, MarkApplied]"]
  show ?thesis
    by blast
qed

subsection \<open>The configuration validator\<close>

lemma sublist_in_line:
  assumes "newline \<notin> set r" and "ls \<noteq> []" and "sublist r (join_lines ls)"
  shows "\<exists>l\<in>set ls. sublist r l"
  using assms(2,3)
proof (induction ls rule: join_lines.induct)
  case 1
  then show ?case by simp
next
  case (2 l)
  then show ?case by simp
next
  case (3 l l' ls)
  from "3.prems"(2) have "sublist r (l @ (newline # join_lines (l' # ls)))"
    by simp
  then consider (left) "sublist r l" | (right) "sublist r (newline # join_lines (l' # ls))"
    | (across) r1 r2 where "r = r1 @ r2" "suffix r1 l" "prefix r2 (newline # join_lines (l' # ls))"
    unfolding sublist_append by blast
  then show ?case
  proof cases
    case left
    then show ?thesis by auto
  next
    case right
    then consider "prefix r (newline # join_lines (l' # ls))" | "sublist r (join_lines (l' # ls))"
      unfolding sublist_Cons_right by blast
    then show ?thesis
    proof cases
      case 1
      with assms(1) have "r = []"
        by (cases r) auto
      then show ?thesis by auto
    next
      case 2
      with "3.IH" show ?thesis by auto
    qed
  next
    case across
    from across(3) assms(1) across(1) have "r2 = []"
      by (cases r2) auto
    with across(1,2) have "sublist r l"
      by auto
    then show ?thesis by auto
  qed
qed

lemma line_includes: "l \<in> set (split_lines t) \<Longrightarrow> includes_js t l"
  using sublist_join_lines [of l "split_lines t"]
  by (simp add: includes_js_sublist join_split_lines)

lemma includes_in_line:
  assumes "newline \<notin> set r" and "includes_js t r"
  shows "\<exists>l\<in>set (split_lines t). includes_js l r"
  using sublist_in_line [OF assms(1) split_lines_not_Nil [of t]] assms(2)
  by (simp add: includes_js_sublist join_split_lines)

lemma required_no_newline: "r \<in> set required_settings \<Longrightarrow> newline \<notin> set r"
  by (auto simp: required_settings_def newline_def)

lemma clean_includes:
  assumes "\<forall>l\<in>set (split_lines t). \<forall>r\<in>set required_settings. includes_js l r \<longrightarrow> l = r"
    and "r \<in> set required_settings"
  shows "includes_js t r = (r \<in> set (split_lines t))"
proof
  assume "includes_js t r"
  then obtain l where "l \<in> set (split_lines t)" "includes_js l r"
    using includes_in_line [OF required_no_newline [OF assms(2)]] by blast
  with assms show "r \<in> set (split_lines t)"
    by auto
next
  assume "r \<in> set (split_lines t)"
  then show "includes_js t r" by (rule line_includes)
qed

lemma issues_count:
  "length (issues (validateGoldHENConfig t)) =
     length (filter (\<lambda>r. \<not> includes_js t r) required_settings) +
     (if includes_js t ''enable_homebrew_blocker=1'' then 1 else 0)"
  by (simp add: validateGoldHENConfig_def required_settings_def Let_def)

lemma score_of_issues:
  "score (validateGoldHENConfig t) =
     max 0 (100 - 20 * int (length (issues (validateGoldHENConfig t))))"
  by (simp add: validateGoldHENConfig_def Let_def)

lemma absent_le_missing:
  "length (filter (\<lambda>r. \<not> includes_js t r) rs) \<le>
   length (filter (\<lambda>r. r \<notin> set (split_lines t)) rs)"
proof (induction rs)
  case Nil
  then show ?case by simp
next
  case (Cons r rs)
  then show ?case
    using line_includes [of r t] by auto
qed

lemma absent_eq_missing:
  assumes "\<forall>l\<in>set (split_lines t). \<forall>r\<in>set required_settings. includes_js l r \<longrightarrow> l = r"
  shows "filter (\<lambda>r. \<not> includes_js t r) required_settings = missing_settings t"
  unfolding missing_settings_def
  by (rule filter_cong [OF refl]) (simp add: clean_includes [OF assms])

text \<open>
  C5 as stated fails: the validator tests the whole text for substrings, and the blocker
  flag is a check of its own. \<^const>\<open>config_with_blocker\<close> misses none of the required
  settings and scores 80; no line of \<^const>\<open>config_lookalikes\<close> is a required setting, so it
  misses all three, and it scores 100 and is valid.
\<close>

theorem validation_missing_settings_counterexample:
  "missing_settings config_with_blocker = [] \<and>
   score (validateGoldHENConfig config_with_blocker) = 80 \<and>
   missing_settings config_lookalikes = required_settings \<and>
   score (validateGoldHENConfig config_lookalikes) = 100 \<and>
   isValid (validateGoldHENConfig config_lookalikes)"
  by code_simp

text \<open>
  C5, as amended. The score is \<open>max 0 (100 - 20 * n)\<close> for the \<open>n\<close> issues reported: one for
  each required \<^verbatim>\<open>key=value\<close> text that occurs nowhere in the document, and one more when
  \<^verbatim>\<open>enable_homebrew_blocker=1\<close> occurs in it. The score is 100 exactly when there is no
  issue, and so is \<^verbatim>\<open>isValid\<close>. For a document in which the blocker text does not occur
  and that misses \<open>k\<close> required settings, the score is at least \<open>max 0 (100 - 20 * k)\<close>,
  and it is \<open>max 0 (100 - 20 * k)\<close> when every line that contains a required setting is
  that setting.
\<close>

theorem validation_score_of_issues:
  "score (validateGoldHENConfig t) =
     max 0 (100 - 20 * int (length (issues (validateGoldHENConfig t)))) \<and>
   length (issues (validateGoldHENConfig t)) =
     length (filter (\<lambda>r. \<not> includes_js t r) required_settings) +
     (if includes_js t ''enable_homebrew_blocker=1'' then 1 else 0) \<and>
   (score (validateGoldHENConfig t) = 100) = (issues (validateGoldHENConfig t) = []) \<and>
   isValid (validateGoldHENConfig t) = (issues (validateGoldHENConfig t) = []) \<and>
   (\<not> includes_js t ''enable_homebrew_blocker=1'' \<longrightarrow>
      max 0 (100 - 20 * int (length (missing_settings t))) \<le> score (validateGoldHENConfig t)) \<and>
   (\<not> includes_js t ''enable_homebrew_blocker=1'' \<and>
    (\<forall>l\<in>set (split_lines t). \<forall>r\<in>set required_settings. includes_js l r \<longrightarrow> l = r) \<longrightarrow>
      score (validateGoldHENConfig t) = max 0 (100 - 20 * int (length (missing_settings t))))"
proof -
  let ?v = "validateGoldHENConfig t"
  have full: "(score ?v = 100) = (issues ?v = [])"
    unfolding score_of_issues by (cases "issues ?v") auto
  have valid: "isValid ?v = (issues ?v = [])"
    by (simp add: validateGoldHENConfig_def Let_def)
  have lower: "max 0 (100 - 20 * int (length (missing_settings t))) \<le> score ?v"
    if "\<not> includes_js t ''enable_homebrew_blocker=1''"
  proof -
    have "length (issues ?v) \<le> length (missing_settings t)"
      using that absent_le_missing [of t required_settings]
      by (simp add: issues_count missing_settings_def)
    then show ?thesis
      unfolding score_of_issues by simp
  qed
  have exact: "score ?v = max 0 (100 - 20 * int (length (missing_settings t)))"
    if "\<not> includes_js t ''enable_homebrew_blocker=1''"
      and "\<forall>l\<in>set (split_lines t). \<forall>r\<in>set required_settings. includes_js l r \<longrightarrow> l = r"
  proof -
    have "length (issues ?v) = length (missing_settings t)"
      using that(1) by (simp add: issues_count absent_eq_missing [OF that(2)])
    then show ?thesis
      unfolding score_of_issues by simp
  qed
  from score_of_issues [of t] issues_count [of t] full valid lower exact show ?thesis
    by blast
qed

lemma without_ftp_clean:
  "\<not> includes_js config_without_ftp ''enable_homebrew_blocker=1'' \<and>
   (\<forall>l\<in>set (split_lines config_without_ftp). \<forall>r\<in>set required_settings.
      includes_js l r \<longrightarrow> l = r)"
  by code_simp

lemma without_ftp_missing:
  "missing_settings config_without_ftp = [''enable_ftp_server=1'']"
  by code_simp

theorem validation_score_of_issues_witness:
  "\<not> includes_js config_without_ftp ''enable_homebrew_blocker=1'' \<and>
   missing_settings config_without_ftp = [''enable_ftp_server=1''] \<and>
   score (validateGoldHENConfig config_without_ftp) = 80"
proof -
  note v = validation_score_of_issues [of config_without_ftp]
  have "score (validateGoldHENConfig config_without_ftp) =
      max 0 (100 - 20 * int (length (missing_settings config_without_ftp)))"
    by (rule mp [OF conjunct2 [OF conjunct2 [OF conjunct2 [OF conjunct2 [OF conjunct2 [OF v]]]]]
          without_ftp_clean])
  then have "score (validateGoldHENConfig config_without_ftp) = 80"
    unfolding without_ftp_missing by simp
  then show ?thesis
    by (intro conjI conjunct1 [OF without_ftp_clean] without_ftp_missing)
qed

subsection \<open>The manifest filter\<close>

lemma parse_lines_filter:
  "parse_lines ls acc = acc @ filter is_plugin_path (map trim ls)"
  by (induction ls arbitrary: acc) (simp_all add: is_plugin_path_def Let_def)

lemma default_manifest_paths:
  "parsePluginsList DEFAULT_PLUGINS_CONFIG =
     [''/data/GoldHEN/plugins/game_patch.prx'', ''/data/GoldHEN/plugins/cheat_manager.prx'']"
  by code_simp

text \<open>
  C6. \<^verbatim>\<open>parsePluginsList\<close> returns the trimmed lines of the text that are plugin paths
  (not blank, not starting with \<^verbatim>\<open>[\<close> or \<^verbatim>\<open>#\<close>, containing \<^verbatim>\<open>.prx\<close>), in the order of
  the file. For the manifest of the sources, with its two headers, two comments, blank
  lines and two paths, these are the two paths.
\<close>

theorem manifest_filtering:
  "parsePluginsList text = filter is_plugin_path (map trim (split_lines text)) \<and>
   parsePluginsList DEFAULT_PLUGINS_CONFIG =
     [''/data/GoldHEN/plugins/game_patch.prx'', ''/data/GoldHEN/plugins/cheat_manager.prx'']"
  using default_manifest_paths by (simp add: parsePluginsList_def parse_lines_filter)

subsection \<open>The canonical configuration\<close>

lemma createOptimalConfig_split:
  "createOptimalConfig now = butlast (createOptimalConfig []) @ now @ [newline]"
  by (simp add: createOptimalConfig_def butlast_append)

lemma head_last:
  "butlast (createOptimalConfig []) \<noteq> [] \<and> last (butlast (createOptimalConfig [])) = CHR '' ''"
  by code_simp

lemma includes_js_appendI: "includes_js a t \<Longrightarrow> includes_js (a @ b) t"
  unfolding includes_js_sublist sublist_append
  by simp

lemma sublist_straddle:
  assumes "sublist n (a @ b)" and "n \<noteq> []" and "hd n \<notin> set b"
    and "a \<noteq> []" and "last a \<notin> set n"
  shows "sublist n a"
proof -
  from assms(1) consider "sublist n a" | "sublist n b"
    | n1 n2 where "n = n1 @ n2" "suffix n1 a" "prefix n2 b"
    unfolding sublist_append by blast
  then show ?thesis
  proof cases
    case 1
    then show ?thesis .
  next
    case 2
    then have "set n \<subseteq> set b" by (rule set_mono_sublist)
    with assms(2,3) show ?thesis by (cases n) auto
  next
    case 3
    show ?thesis
    proof (cases "n1 = []")
      case True
      with 3 have "prefix n b" by simp
      then have "set n \<subseteq> set b" by (auto simp: prefix_def)
      with assms(2,3) show ?thesis by (cases n) auto
    next
      case False
      from 3(2) obtain zs where a: "a = zs @ n1" by (auto simp: suffix_def)
      with False have "last a = last n1" by simp
      with False 3(1) have "last a \<in> set n" by auto
      with assms(5) show ?thesis by simp
    qed
  qed
qed

lemma blocker_in_split:
  assumes "includes_js (createOptimalConfig now) ''enable_homebrew_blocker=1''"
  shows "sublist ''enable_homebrew_blocker=1''
      (butlast (createOptimalConfig []) @ (now @ [newline]))"
  using assms unfolding includes_js_sublist createOptimalConfig_split [of now] .

lemma iso_no_e:
  assumes "list_all iso_char now"
  shows "CHR ''e'' \<notin> set now"
proof
  assume "CHR ''e'' \<in> set now"
  with assms have "iso_char CHR ''e''"
    by (simp add: list_all_iff)
  then show False
    by (simp add: iso_char_def)
qed

lemma blocker_head:
  assumes "CHR ''e'' \<notin> set now"
  shows "hd ''enable_homebrew_blocker=1'' \<notin> set (now @ [newline])"
  using assms by (simp add: newline_def)

lemma head_blocker:
  "\<not> includes_js (butlast (createOptimalConfig [])) ''enable_homebrew_blocker=1''"
  by code_simp

lemma blocker_absent:
  assumes "list_all iso_char now"
  shows "\<not> includes_js (createOptimalConfig now) ''enable_homebrew_blocker=1''"
proof
  assume "includes_js (createOptimalConfig now) ''enable_homebrew_blocker=1''"
  then have sub: "sublist ''enable_homebrew_blocker=1''
      (butlast (createOptimalConfig []) @ (now @ [newline]))"
    by (rule blocker_in_split)
  have hd: "hd ''enable_homebrew_blocker=1'' \<notin> set (now @ [newline])"
    by (rule blocker_head [OF iso_no_e [OF assms]])
  have ne: "''enable_homebrew_blocker=1'' \<noteq> []"
    by simp
  have la: "last (butlast (createOptimalConfig [])) \<notin> set ''enable_homebrew_blocker=1''"
    unfolding conjunct2 [OF head_last] by simp
  have "sublist ''enable_homebrew_blocker=1'' (butlast (createOptimalConfig []))"
    by (rule sublist_straddle [OF sub ne hd conjunct1 [OF head_last] la])
  then have "includes_js (butlast (createOptimalConfig [])) ''enable_homebrew_blocker=1''"
    unfolding includes_js_sublist .
  with head_blocker show False
    by (rule notE)
qed

lemma head_loader:
  "includes_js (butlast (createOptimalConfig [])) ''enable_plugins_loader=1''"
  by code_simp

lemma head_patch:
  "includes_js (butlast (createOptimalConfig [])) ''enable_game_patch_plugin=1''"
  by code_simp

lemma head_ftp:
  "includes_js (butlast (createOptimalConfig [])) ''enable_ftp_server=1''"
  by code_simp

lemma required_present:
  "includes_js (createOptimalConfig now) ''enable_plugins_loader=1''"
  "includes_js (createOptimalConfig now) ''enable_game_patch_plugin=1''"
  "includes_js (createOptimalConfig now) ''enable_ftp_server=1''"
  unfolding createOptimalConfig_split [of now]
  by (rule includes_js_appendI, rule head_loader head_patch head_ftp)+

text \<open>
  C9. Whatever the time stamp (a text of the characters of an ISO 8601 time stamp), the
  text of \<^verbatim>\<open>createOptimalConfig\<close> validates with no issue: \<^verbatim>\<open>isValid\<close> is true and the
  score is 100.
\<close>

theorem canonical_config_valid:
  assumes "list_all iso_char now"
  shows "isValid (validateGoldHENConfig (createOptimalConfig now)) \<and>
         score (validateGoldHENConfig (createOptimalConfig now)) = 100 \<and>
         issues (validateGoldHENConfig (createOptimalConfig now)) = []"
  unfolding validateGoldHENConfig_def Let_def
  by (simp add: required_present blocker_absent [OF assms])

theorem canonical_config_valid_witness:
  "list_all iso_char ''2025-06-01T12:34:56.789Z'' \<and>
   isValid (validateGoldHENConfig (createOptimalConfig ''2025-06-01T12:34:56.789Z'')) \<and>
   score (validateGoldHENConfig (createOptimalConfig ''2025-06-01T12:34:56.789Z'')) = 100"
proof -
  have h: "list_all iso_char ''2025-06-01T12:34:56.789Z''"
    by code_simp
  note v = canonical_config_valid [OF h]
  show ?thesis
    by (intro conjI h conjunct1 [OF v] conjunct1 [OF conjunct2 [OF v]])
qed

subsection \<open>The automatic fix\<close>

lemma tryP_returns:
  "\<exists>x s'. tryP m (\<lambda>e. retP (h e)) s = (Inr x, s')"
  by (cases "m s" rule: prod.exhaust, cases "fst (m s)")
     (auto simp: tryP_def retP_def split: sum.splits)

lemma fix_returns: "\<exists>x s'. fixGoldHENPlugins ch s = (Inr x, s')"
  unfolding fixGoldHENPlugins_def by (rule tryP_returns)

lemma optimize_returns: "\<exists>x s'. optimizeGoldHENConfig ch now s = (Inr x, s')"
  unfolding optimizeGoldHENConfig_def by (rule tryP_returns)

lemma steps_return:
  "\<exists>x s'. bindP (sleep 1500) (\<lambda>_.
            bindP (fixGoldHENPlugins ch) (\<lambda>fixResult.
            bindP (optimizeGoldHENConfig ch now) (\<lambda>_.
            retP fixResult))) s = (Inr x, s')"
proof -
  obtain s1 where a: "sleep 1500 s = (Inr (), s1)"
    by (simp add: sleep_def)
  obtain r s2 where b: "fixGoldHENPlugins ch s1 = (Inr r, s2)"
    using fix_returns by blast
  obtain o' s3 where c: "optimizeGoldHENConfig ch now s2 = (Inr o', s3)"
    using optimize_returns by blast
  from a b c show ?thesis
    by (simp add: bindP_def retP_def)
qed

lemma verify_fails:
  assumes "shouldApplyPluginsFix f"
  shows "\<not> verify_success (verifyFixApplication f)"
    and "take 2 (map check_name (verify_issues (verifyFixApplication f))) =
           [''LocalStorage flag'', ''SessionStorage flag'']"
  using assms
  by (simp_all add: shouldApplyPluginsFix_def verifyFixApplication_def Let_def split: if_splits)

text \<open>
  C1. On every run that the gate lets through, whatever the capability answers,
  \<^verbatim>\<open>autoFixGoldHEN\<close> takes its return with issues, whose \<^verbatim>\<open>success\<close> is false, and leaves
  the two stores as they were, so \<^verbatim>\<open>markPluginsFixApplied\<close> has not run: the verification
  reads the two flags before anything has set them, and its first two checks fail. No
  exception escapes the steps before the verification, each of which catches its own.
\<close>

theorem autofix_never_marks:
  assumes "shouldApplyPluginsFix f"
  shows "\<exists>cs s'. autoFixGoldHEN ch message now f s = ((WithIssues cs, f), s') \<and>
           \<not> result_success (WithIssues cs) \<and>
           take 2 (map check_name cs) = [''LocalStorage flag'', ''SessionStorage flag'']"
proof -
  obtain r s' where run: "bindP (sleep 1500) (\<lambda>_.
            bindP (fixGoldHENPlugins ch) (\<lambda>fixResult.
            bindP (optimizeGoldHENConfig ch now) (\<lambda>_.
            retP fixResult))) s = (Inr r, s')"
    using steps_return by blast
  have "autoFixGoldHEN ch message now f s =
      ((WithIssues (verify_issues (verifyFixApplication f)), f), s')"
    unfolding autoFixGoldHEN_def
    using assms verify_fails(1) [OF assms] run by (simp add: Let_def)
  with verify_fails(2) [OF assms] show ?thesis
    by simp
qed

theorem autofix_never_marks_witness:
  "shouldApplyPluginsFix empty_flags \<and>
   (\<exists>cs s'. autoFixGoldHEN scripted ''done'' ''2025-06-01T12:34:56.789Z'' empty_flags
               (start [] []) = ((WithIssues cs, empty_flags), s') \<and>
            \<not> result_success (WithIssues cs))"
proof -
  have h: "shouldApplyPluginsFix empty_flags"
    by (simp add: shouldApplyPluginsFix_def empty_flags_def)
  from autofix_never_marks [OF h, of scripted "''done''" "''2025-06-01T12:34:56.789Z''"
      "start [] []"] h
  show ?thesis
    by blast
qed

subsection \<open>One setting operation\<close>

text \<open>
  When \<^verbatim>\<open>modifyGoldHENSetting\<close> returns true, the last call it issued is the close of the
  descriptor that the open returned.
\<close>

lemma close_on_return:
  assumes "modifyGoldHENSetting ch path setting val s = (Inr True, s')"
  shows "\<exists>fd t. trace s' = trace s @ Sys (Open path 0x602) # t @ [Sys (Close fd)] \<and>
           fst (sysi_of ch (world s) (Open path 0x602)) = Inr fd"
  using assms
  by (auto simp: modifyGoldHENSetting_def tryP_def bindP_def retP_def sysi_def read_string_def
        split: sum.splits prod.splits if_splits)

text \<open>
  C7 fails on the code. The close is the last statement of the \<^verbatim>\<open>try\<close> block, so a call
  that throws after the open has succeeded goes to the \<^verbatim>\<open>catch\<close> and past it: here the
  open returns the descriptor 3, the read throws, and the function returns false
  without a close of 3.
\<close>

theorem close_skipped_when_read_throws:
  "fst (modifyGoldHENSetting scripted ''/data/GoldHEN/config.ini'' ''enable_plugins_loader'' ''0''
          (start [Inr 3, Inl (Error ''EIO'')] [])) = Inr False \<and>
   trace (snd (modifyGoldHENSetting scripted ''/data/GoldHEN/config.ini''
                 ''enable_plugins_loader'' ''0'' (start [Inr 3, Inl (Error ''EIO'')] []))) =
     [Sys (Open ''/data/GoldHEN/config.ini'' 0x602), Sys (Read 3 0x4000)] \<and>
   Sys (Close 3) \<notin> set (trace (snd (modifyGoldHENSetting scripted ''/data/GoldHEN/config.ini''
                 ''enable_plugins_loader'' ''0'' (start [Inr 3, Inl (Error ''EIO'')] []))))"
  by (simp add: modifyGoldHENSetting_def scripted_def start_def tryP_def bindP_def retP_def
      sysi_def)

text \<open>
  C8 as stated fails: when the read returns 0 the function skips the rewrite. Here the
  open returns the descriptor 3 and the read returns 0; the function returns true after
  the close, and has issued no seek, truncate or write.
\<close>

theorem rewrite_skipped_counterexample:
  "fst (modifyGoldHENSetting scripted ''/data/GoldHEN/config.ini'' ''enable_plugins_loader'' ''0''
          (start [Inr 3, Inr 0, Inr 0] [])) = Inr True \<and>
   trace (snd (modifyGoldHENSetting scripted ''/data/GoldHEN/config.ini''
                 ''enable_plugins_loader'' ''0'' (start [Inr 3, Inr 0, Inr 0] []))) =
     [Sys (Open ''/data/GoldHEN/config.ini'' 0x602), Sys (Read 3 0x4000), Sys (Close 3)] \<and>
   \<not> list_ex is_rewrite_call
       (trace (snd (modifyGoldHENSetting scripted ''/data/GoldHEN/config.ini''
                 ''enable_plugins_loader'' ''0'' (start [Inr 3, Inr 0, Inr 0] []))))"
  by (simp add: modifyGoldHENSetting_def scripted_def start_def tryP_def bindP_def retP_def
      sysi_def)

text \<open>
  C8, as amended. When the open succeeds and the read returns 0, the calls the function
  issues are the open, the read and the close of the descriptor, in this order, and no
  other: no seek, no truncate and no write of \<^verbatim>\<open>key=value\<close>. The state of the
  capability after the function is the one its close leaves from the state after the
  read, and the function returns true if the close returns.
\<close>

theorem no_rewrite_on_empty_read:
  assumes "sysi_of ch (world s) (Open path 0x602) = (Inr fd, w1)" and "0 \<le> fd"
    and "sysi_of ch w1 (Read fd 0x4000) = (Inr 0, w2)"
  shows "trace (snd (modifyGoldHENSetting ch path setting val s)) =
           trace s @ [Sys (Open path 0x602), Sys (Read fd 0x4000), Sys (Close fd)] \<and>
         world (snd (modifyGoldHENSetting ch path setting val s)) =
           snd (sysi_of ch w2 (Close fd)) \<and>
         fst (modifyGoldHENSetting ch path setting val s) =
           Inr (\<not> isl (fst (sysi_of ch w2 (Close fd))))"
  using assms
  by (cases "sysi_of ch w2 (Close fd)")
     (auto simp: modifyGoldHENSetting_def tryP_def bindP_def retP_def sysi_def
        split: sum.splits)

theorem no_rewrite_on_empty_read_witness:
  "sysi_of scripted (world (start [Inr 3, Inr 0, Inr 0] []))
       (Open ''/data/GoldHEN/config.ini'' 0x602) =
     (Inr 3, \<lparr>replies = [Inr 0, Inr 0], buffer_text = []\<rparr>) \<and>
   sysi_of scripted \<lparr>replies = [Inr 0, Inr 0], buffer_text = []\<rparr> (Read 3 0x4000) =
     (Inr 0, \<lparr>replies = [Inr 0], buffer_text = []\<rparr>) \<and>
   trace (snd (modifyGoldHENSetting scripted ''/data/GoldHEN/config.ini''
                 ''enable_plugins_loader'' ''0'' (start [Inr 3, Inr 0, Inr 0] []))) =
     trace (start [Inr 3, Inr 0, Inr 0] []) @
       [Sys (Open ''/data/GoldHEN/config.ini'' 0x602), Sys (Read 3 0x4000), Sys (Close 3)]"
proof -
  have a: "sysi_of scripted (world (start [Inr 3, Inr 0, Inr 0] []))
       (Open ''/data/GoldHEN/config.ini'' 0x602) =
     (Inr 3, \<lparr>replies = [Inr 0, Inr 0], buffer_text = []\<rparr>)"
    by (simp add: scripted_def start_def)
  have b: "(0::int) \<le> 3"
    by simp
  have c: "sysi_of scripted \<lparr>replies = [Inr 0, Inr 0], buffer_text = []\<rparr> (Read 3 0x4000) =
     (Inr 0, \<lparr>replies = [Inr 0], buffer_text = []\<rparr>)"
    by (simp add: scripted_def)
  note w = no_rewrite_on_empty_read [OF a b c, of "''enable_plugins_loader''" "''0''"]
  show ?thesis
    by (intro conjI a c conjunct1 [OF w])
qed

subsection \<open>The reactivation sequence\<close>

lemma update_includes_line:
  "includes_js (updateConfigSetting text key val) (setting_line key val)"
proof -
  consider (none) "\<forall>l\<in>set (split_lines text). \<not> includes_js l key"
    | (some) pre l post where "split_lines text = pre @ l # post"
        "\<forall>x\<in>set pre. \<not> includes_js x key" "includes_js l key"
    using ex_first_line [of "split_lines text" key] by blast
  then show ?thesis
  proof cases
    case none
    have "sublist (setting_line key val) ((text @ [newline]) @ setting_line key val)"
      by (rule sublist_append_leftI)
    with update_append [OF none] show ?thesis
      by (simp add: includes_js_sublist)
  next
    case some
    have "sublist (setting_line key val) (join_lines (pre @ setting_line key val # post))"
      by (rule sublist_join_lines) simp
    with update_replace [OF some] show ?thesis
      by (simp add: includes_js_sublist)
  qed
qed

lemma modify_segment:
  "\<exists>b s' t. modifyGoldHENSetting ch path setting val s = (Inr b, s') \<and>
     trace s' = trace s @ t \<and> setting_segment path setting val t"
  by (auto simp: modifyGoldHENSetting_def tryP_def bindP_def retP_def sysi_def read_string_def
      setting_segment_def update_includes_line
      split: sum.splits prod.splits)

lemma lookups_append: "lookups (xs @ ys) = lookups xs @ lookups ys"
  by (induction xs rule: lookups.induct) simp_all

lemma unload_plugin_segment:
  "\<exists>s' t. unload_plugin ch plugin s = (Inr (), s') \<and> trace s' = trace s @ t \<and>
     list_all is_unload_attempt t \<and> lookups t = [plugin]"
  by (auto simp: unload_plugin_def tryP_def bindP_def retP_def sysi_def
      split: sum.splits prod.splits)

lemma unload_each_segment:
  "\<exists>s' t. for_each (unload_plugin ch) plugins s = (Inr (), s') \<and> trace s' = trace s @ t \<and>
     list_all is_unload_attempt t \<and> lookups t = plugins"
proof (induction plugins arbitrary: s)
  case Nil
  then show ?case by (simp add: retP_def)
next
  case (Cons p ps)
  obtain s1 t1 where one: "unload_plugin ch p s = (Inr (), s1)" "trace s1 = trace s @ t1"
      "list_all is_unload_attempt t1" "lookups t1 = [p]"
    using unload_plugin_segment by blast
  obtain s2 t2 where rest: "for_each (unload_plugin ch) ps s1 = (Inr (), s2)"
      "trace s2 = trace s1 @ t2" "list_all is_unload_attempt t2" "lookups t2 = ps"
    using Cons.IH by blast
  have "for_each (unload_plugin ch) (p # ps) s = (Inr (), s2)"
    using one(1) rest(1) by (simp add: bindP_def)
  moreover have "trace s2 = trace s @ (t1 @ t2)"
    using one(2) rest(2) by simp
  moreover have "list_all is_unload_attempt (t1 @ t2)"
    using one(3) rest(3) by simp
  moreover have "lookups (t1 @ t2) = p # ps"
    using one(4) rest(4) by (simp add: lookups_append)
  ultimately show ?case by blast
qed

lemma unloadPlugins_segment:
  "\<exists>s' t. unloadPlugins ch s = (Inr (), s') \<and> trace s' = trace s @ t \<and> unload_segment t"
  unfolding unloadPlugins_def unload_segment_def by (rule unload_each_segment)

text \<open>
  Pieces of program whose events all satisfy \<open>P\<close>, whatever they return, and how they
  compose.
\<close>

lemma ret_emits:
  "\<exists>r s' t. retP x s = (r, s') \<and> trace s' = trace s @ t \<and> list_all P t"
  by (simp add: retP_def)

lemma sysi_emits:
  "P (Sys c) \<Longrightarrow> \<exists>r s' t. sysi ch c s = (r, s') \<and> trace s' = trace s @ t \<and> list_all P t"
  by (auto simp: sysi_def split: prod.splits)

lemma read_string_emits:
  "\<exists>r s' t. read_string ch n s = (r, s') \<and> trace s' = trace s @ t \<and> list_all P t"
  by (simp add: read_string_def)

lemma bind_emits:
  assumes "\<And>s. \<exists>r s' t. m s = (r, s') \<and> trace s' = trace s @ t \<and> list_all P t"
    and "\<And>x s. \<exists>r s' t. f x s = (r, s') \<and> trace s' = trace s @ t \<and> list_all P t"
  shows "\<exists>r s' t. bindP m f s = (r, s') \<and> trace s' = trace s @ t \<and> list_all P t"
proof -
  obtain r1 s1 t1 where m: "m s = (r1, s1)" "trace s1 = trace s @ t1" "list_all P t1"
    using assms(1) by blast
  show ?thesis
  proof (cases r1)
    case (Inl e)
    with m show ?thesis by (auto simp: bindP_def)
  next
    case (Inr x)
    obtain r2 s2 t2 where f: "f x s1 = (r2, s2)" "trace s2 = trace s1 @ t2" "list_all P t2"
      using assms(2) by blast
    have "bindP m f s = (r2, s2)"
      using m(1) Inr f(1) by (simp add: bindP_def)
    moreover have "trace s2 = trace s @ (t1 @ t2)"
      using m(2) f(2) by simp
    moreover have "list_all P (t1 @ t2)"
      using m(3) f(3) by simp
    ultimately show ?thesis by blast
  qed
qed

lemma try_emits:
  assumes "\<And>s. \<exists>r s' t. m s = (r, s') \<and> trace s' = trace s @ t \<and> list_all P t"
    and "\<And>e s. \<exists>r s' t. h e s = (r, s') \<and> trace s' = trace s @ t \<and> list_all P t"
  shows "\<exists>r s' t. tryP m h s = (r, s') \<and> trace s' = trace s @ t \<and> list_all P t"
proof -
  obtain r1 s1 t1 where m: "m s = (r1, s1)" "trace s1 = trace s @ t1" "list_all P t1"
    using assms(1) by blast
  show ?thesis
  proof (cases r1)
    case (Inr x)
    with m show ?thesis by (auto simp: tryP_def)
  next
    case (Inl e)
    obtain r2 s2 t2 where h: "h e s1 = (r2, s2)" "trace s2 = trace s1 @ t2" "list_all P t2"
      using assms(2) by blast
    have "tryP m h s = (r2, s2)"
      using m(1) Inl h(1) by (simp add: tryP_def)
    moreover have "trace s2 = trace s @ (t1 @ t2)"
      using m(2) h(2) by simp
    moreover have "list_all P (t1 @ t2)"
      using m(3) h(3) by simp
    ultimately show ?thesis by blast
  qed
qed

lemma if_emits:
  assumes "\<And>s. \<exists>r s' t. m1 s = (r, s') \<and> trace s' = trace s @ t \<and> list_all P t"
    and "\<And>s. \<exists>r s' t. m2 s = (r, s') \<and> trace s' = trace s @ t \<and> list_all P t"
  shows "\<exists>r s' t. (if c then m1 else m2) s = (r, s') \<and> trace s' = trace s @ t \<and> list_all P t"
  using assms by (cases c) simp_all

lemma for_each_emits:
  assumes "\<And>x s. \<exists>r s' t. body x s = (r, s') \<and> trace s' = trace s @ t \<and> list_all P t"
  shows "\<exists>r s' t. for_each body xs s = (r, s') \<and> trace s' = trace s @ t \<and> list_all P t"
proof (induction xs arbitrary: s)
  case Nil
  show ?case unfolding for_each.simps by (rule ret_emits)
next
  case (Cons x xs)
  show ?case
    unfolding for_each.simps by (rule bind_emits [OF assms Cons.IH])
qed

lemma loadPlugins_emits:
  "\<exists>r s' t. loadPlugins ch path s = (r, s') \<and> trace s' = trace s @ t \<and>
     list_all (\<lambda>e. is_file_call e \<or> is_load_call e) t"
  unfolding loadPlugins_def load_plugin_def
  by (intro try_emits bind_emits if_emits for_each_emits sysi_emits ret_emits read_string_emits)
     simp_all

lemma loadPlugins_segment:
  "\<exists>s' t. loadPlugins ch path s = (Inr (), s') \<and> trace s' = trace s @ t \<and> load_segment t"
proof -
  have "\<exists>x s'. loadPlugins ch path s = (Inr x, s')"
    unfolding loadPlugins_def by (rule tryP_returns)
  with loadPlugins_emits [of ch path s] show ?thesis
    unfolding load_segment_def by auto
qed

lemma setting_operation_segment:
  "\<exists>s' t. run_operation ch path (Setting setting val) s = (Inr (), s') \<and>
     trace s' = trace s @ t @ [Sleep 50] \<and> setting_segment path setting val t"
proof -
  obtain b s1 t where m: "modifyGoldHENSetting ch path setting val s = (Inr b, s1)"
      "trace s1 = trace s @ t" "setting_segment path setting val t"
    using modify_segment by blast
  have "run_operation ch path (Setting setting val) s =
      (Inr (), s1\<lparr>trace := trace s1 @ [Sleep 50]\<rparr>)"
    using m(1) by (simp add: bindP_def sleep_def)
  with m(2,3) show ?thesis
    by auto
qed

lemma delay_operation:
  "run_operation ch path (Delay 100) s = (Inr (), s\<lparr>trace := trace s @ [Sleep 100]\<rparr>)"
  by (simp add: sleep_def)

lemma forcePluginsReload_segments:
  "\<exists>b s' un ld. forcePluginsReload ch fix_payload s = (Inr b, s') \<and>
     trace s' = trace s @ un @ [Sleep 200] @ ld @ [Sleep 200] \<and>
     unload_segment un \<and> load_segment ld"
proof -
  obtain s1 un where u: "unloadPlugins ch s = (Inr (), s1)" "trace s1 = trace s @ un"
      "unload_segment un"
    using unloadPlugins_segment by blast
  define s2 where "s2 = s1\<lparr>trace := trace s1 @ [Sleep 200]\<rparr>"
  obtain s3 ld where l: "loadPlugins ch (plugins_path fix_payload) s2 = (Inr (), s3)"
      "trace s3 = trace s2 @ ld" "load_segment ld"
    using loadPlugins_segment by blast
  have "forcePluginsReload ch fix_payload s = (Inr True, s3\<lparr>trace := trace s3 @ [Sleep 200]\<rparr>)"
    using u(1) l(1)
    by (simp add: forcePluginsReload_def tryP_def bindP_def sleep_def retP_def s2_def)
  moreover have "trace (s3\<lparr>trace := trace s3 @ [Sleep 200]\<rparr>) =
      trace s @ un @ [Sleep 200] @ ld @ [Sleep 200]"
    using u(2) l(2) by (simp add: s2_def)
  ultimately show ?thesis
    using u(3) l(3) by blast
qed

lemma reactivation_segments:
  "\<exists>s' t1 t2 t3 t4 un ld.
     reactivatePlugins ch createPluginFixPayload s = (Inr (), s') \<and>
     trace s' =
       trace s @ (t1 @ [Sleep 50] @ t2 @ [Sleep 50] @ [Sleep 100] @ t3 @ [Sleep 50] @ t4 @ [Sleep 50])
         @ un @ [Sleep 200] @ ld @ [Sleep 200] \<and>
     setting_segment ''/data/GoldHEN/config.ini'' ''enable_plugins_loader'' ''0'' t1 \<and>
     setting_segment ''/data/GoldHEN/config.ini'' ''enable_game_patch_plugin'' ''0'' t2 \<and>
     setting_segment ''/data/GoldHEN/config.ini'' ''enable_plugins_loader'' ''1'' t3 \<and>
     setting_segment ''/data/GoldHEN/config.ini'' ''enable_game_patch_plugin'' ''1'' t4 \<and>
     unload_segment un \<and> load_segment ld"
proof -
  let ?p = "''/data/GoldHEN/config.ini''"
  obtain s1 t1 where a: "run_operation ch ?p (Setting ''enable_plugins_loader'' ''0'') s = (Inr (), s1)"
      "trace s1 = trace s @ t1 @ [Sleep 50]"
      "setting_segment ?p ''enable_plugins_loader'' ''0'' t1"
    using setting_operation_segment by blast
  obtain s2 t2 where b: "run_operation ch ?p (Setting ''enable_game_patch_plugin'' ''0'') s1 = (Inr (), s2)"
      "trace s2 = trace s1 @ t2 @ [Sleep 50]"
      "setting_segment ?p ''enable_game_patch_plugin'' ''0'' t2"
    using setting_operation_segment by blast
  define s3 where "s3 = s2\<lparr>trace := trace s2 @ [Sleep 100]\<rparr>"
  have c: "run_operation ch ?p (Delay 100) s2 = (Inr (), s3)"
    unfolding s3_def by (rule delay_operation)
  obtain s4 t3 where d: "run_operation ch ?p (Setting ''enable_plugins_loader'' ''1'') s3 = (Inr (), s4)"
      "trace s4 = trace s3 @ t3 @ [Sleep 50]"
      "setting_segment ?p ''enable_plugins_loader'' ''1'' t3"
    using setting_operation_segment by blast
  obtain s5 t4 where e: "run_operation ch ?p (Setting ''enable_game_patch_plugin'' ''1'') s4 = (Inr (), s5)"
      "trace s5 = trace s4 @ t4 @ [Sleep 50]"
      "setting_segment ?p ''enable_game_patch_plugin'' ''1'' t4"
    using setting_operation_segment by blast
  obtain r s6 un ld where f: "forcePluginsReload ch createPluginFixPayload s5 = (Inr r, s6)"
      "trace s6 = trace s5 @ un @ [Sleep 200] @ ld @ [Sleep 200]"
      "unload_segment un" "load_segment ld"
    using forcePluginsReload_segments by blast
  have loop: "for_each (run_operation ch ?p) (operations createPluginFixPayload) s = (Inr (), s5)"
    unfolding createPluginFixPayload_def
    using a(1) b(1) c d(1) e(1) by (simp add: bindP_def retP_def)
  have "reactivatePlugins ch createPluginFixPayload s = (Inr (), s6)"
    unfolding reactivatePlugins_def
    using loop f(1) by (simp add: bindP_def retP_def createPluginFixPayload_def)
  moreover have "trace s6 =
      trace s @ (t1 @ [Sleep 50] @ t2 @ [Sleep 50] @ [Sleep 100] @ t3 @ [Sleep 50] @ t4 @ [Sleep 50])
        @ un @ [Sleep 200] @ ld @ [Sleep 200]"
    using a(2) b(2) d(2) e(2) f(2) by (simp add: s3_def)
  ultimately show ?thesis
    using a(3) b(3) d(3) e(3) f(3,4) by blast
qed

lemma file_call_kind: "is_file_call e \<Longrightarrow> \<not> is_unload_attempt e \<and> \<not> is_load_call e"
  by (cases e rule: is_file_call.cases) simp_all

lemma unload_attempt_kind: "is_unload_attempt e \<Longrightarrow> \<not> is_load_call e"
  by (cases e rule: is_unload_attempt.cases) simp_all

lemma no_lookups: "list_all (\<lambda>x. \<not> is_unload_attempt x) t \<Longrightarrow> lookups t = []"
  by (induction t rule: lookups.induct) simp_all

lemma setting_segment_kind:
  assumes "setting_segment path setting val t"
  shows "list_all (\<lambda>x. \<not> is_unload_attempt x) t" and "list_all (\<lambda>x. \<not> is_load_call x) t"
  using assms by (auto simp: setting_segment_def list_all_iff dest: file_call_kind)

lemma unload_segment_kind:
  "unload_segment t \<Longrightarrow> list_all (\<lambda>x. \<not> is_load_call x) t"
  by (auto simp: unload_segment_def list_all_iff dest: unload_attempt_kind)

lemma load_call_kind: "is_load_call e \<Longrightarrow> \<not> is_unload_attempt e"
  by (cases e rule: is_load_call.cases) simp_all

lemma load_segment_kind:
  "load_segment t \<Longrightarrow> list_all (\<lambda>x. \<not> is_unload_attempt x) t"
  unfolding load_segment_def list_all_iff
  using file_call_kind load_call_kind by blast

lemma split_in_tail:
  assumes "xs @ ys = pre @ e # post" and "P e" and "list_all (\<lambda>x. \<not> P x) xs"
  shows "\<exists>ys1. pre = xs @ ys1 \<and> ys = ys1 @ e # post"
  using assms
proof (induction xs arbitrary: pre)
  case Nil
  then show ?case by simp
next
  case (Cons x xs)
  show ?case
  proof (cases pre)
    case Nil
    with Cons.prems show ?thesis by simp
  next
    case (Cons p pre')
    with Cons.prems Cons.IH [of pre'] show ?thesis by auto
  qed
qed

lemma loads_after_unloads:
  assumes seg: "list_all (\<lambda>x. \<not> is_unload_attempt x) a" "list_all (\<lambda>x. \<not> is_load_call x) a"
      "unload_segment un" "load_segment ld"
    and split: "a @ un @ [Sleep 200] @ ld @ [Sleep 200] = pre @ e # post"
    and load: "is_load_call e"
  shows "lookups pre = plugins_to_unload \<and> list_all (\<lambda>x. \<not> is_unload_attempt x) post"
proof -
  have "list_all (\<lambda>x. \<not> is_load_call x) (a @ un @ [Sleep 200])"
    using seg(2) unload_segment_kind [OF seg(3)] by simp
  with split load obtain ys1 where pre: "pre = (a @ un @ [Sleep 200]) @ ys1"
    and tail: "ld @ [Sleep 200] = ys1 @ e # post"
    using split_in_tail [of "a @ un @ [Sleep 200]" "ld @ [Sleep 200]" pre e post is_load_call]
    by auto
  have "list_all (\<lambda>x. \<not> is_unload_attempt x) (ld @ [Sleep 200])"
    using load_segment_kind [OF seg(4)] by simp
  with tail have quiet: "list_all (\<lambda>x. \<not> is_unload_attempt x) ys1"
      "list_all (\<lambda>x. \<not> is_unload_attempt x) post"
    by simp_all
  have "lookups pre = lookups a @ lookups un @ lookups [Sleep 200] @ lookups ys1"
    unfolding pre by (simp add: lookups_append)
  also have "\<dots> = plugins_to_unload"
    using no_lookups [OF seg(1)] no_lookups [OF quiet(1)] seg(3)
    by (simp add: unload_segment_def)
  finally show ?thesis
    using quiet(2) by simp
qed

text \<open>The run of the reactivation against the scripted capability, step by step.\<close>

lemma scripted_setting:
  "run_operation scripted path (Setting setting val)
     \<lparr>world = \<lparr>replies = Inr 3 # Inr 0 # Inr 0 # rs, buffer_text = b\<rparr>, trace = tr\<rparr> =
   (Inr (), \<lparr>world = \<lparr>replies = rs, buffer_text = b\<rparr>,
             trace = tr @ [Sys (Open path 0x602), Sys (Read 3 0x4000), Sys (Close 3), Sleep 50]\<rparr>)"
  by (simp add: modifyGoldHENSetting_def scripted_def tryP_def bindP_def retP_def sysi_def
      sleep_def)

lemma scripted_operations:
  "for_each (run_operation scripted ''/data/GoldHEN/config.ini'')
     (operations createPluginFixPayload) (start run_replies run_manifest) =
   (Inr (),
    \<lparr>world = \<lparr>replies = [Inr 9, Inr 0, Inr 0, Inl (Error ''ESRCH''), Inr 4, Inr 36, Inr 0, Inr 11],
               buffer_text = run_manifest\<rparr>,
     trace =
       [Sys (Open ''/data/GoldHEN/config.ini'' 0x602), Sys (Read 3 0x4000), Sys (Close 3),
        Sleep 50,
        Sys (Open ''/data/GoldHEN/config.ini'' 0x602), Sys (Read 3 0x4000), Sys (Close 3),
        Sleep 50, Sleep 100,
        Sys (Open ''/data/GoldHEN/config.ini'' 0x602), Sys (Read 3 0x4000), Sys (Close 3),
        Sleep 50,
        Sys (Open ''/data/GoldHEN/config.ini'' 0x602), Sys (Read 3 0x4000), Sys (Close 3),
        Sleep 50]\<rparr>)"
  unfolding createPluginFixPayload_def start_def run_replies_def
  by (simp add: scripted_setting bindP_def retP_def sleep_def del: run_operation.simps(2))

lemma scripted_reload:
  "forcePluginsReload scripted createPluginFixPayload
     \<lparr>world = \<lparr>replies = [Inr 9, Inr 0, Inr 0, Inl (Error ''ESRCH''), Inr 4, Inr 36, Inr 0, Inr 11],
                buffer_text = run_manifest\<rparr>,
      trace = tr\<rparr> =
   (Inr True,
    \<lparr>world = \<lparr>replies = [], buffer_text = run_manifest\<rparr>,
     trace = tr @
       [Sys (Dynlib_get_list ''game_patch.prx'' 0), Sys (Dynlib_unload_prx 9),
        Sys (Dynlib_get_list ''cheat_manager.prx'' 0),
        Sys (Dynlib_get_list ''browser_patch.prx'' 0),
        Sleep 200,
        Sys (Open ''/data/GoldHEN/plugins.ini'' 0), Sys (Read 4 0x1000), Sys (Close 4),
        Sys (Dynlib_load_prx ''/data/GoldHEN/plugins/game_patch.prx'' 0),
        Sleep 200]\<rparr>)"
proof -
  have paths: "parsePluginsList (take 36 run_manifest) = [''/data/GoldHEN/plugins/game_patch.prx'']"
    by code_simp
  show ?thesis
    by (simp add: forcePluginsReload_def unloadPlugins_def plugins_to_unload_def
        unload_plugin_def loadPlugins_def load_plugin_def createPluginFixPayload_def paths
        scripted_def tryP_def bindP_def retP_def sysi_def sleep_def read_string_def)
qed

lemma scripted_run:
  "reactivatePlugins scripted createPluginFixPayload (start run_replies run_manifest) =
     (Inr (),
      \<lparr>world = \<lparr>replies = [], buffer_text = run_manifest\<rparr>,
       trace =
         [Sys (Open ''/data/GoldHEN/config.ini'' 0x602), Sys (Read 3 0x4000), Sys (Close 3),
          Sleep 50,
          Sys (Open ''/data/GoldHEN/config.ini'' 0x602), Sys (Read 3 0x4000), Sys (Close 3),
          Sleep 50, Sleep 100,
          Sys (Open ''/data/GoldHEN/config.ini'' 0x602), Sys (Read 3 0x4000), Sys (Close 3),
          Sleep 50,
          Sys (Open ''/data/GoldHEN/config.ini'' 0x602), Sys (Read 3 0x4000), Sys (Close 3),
          Sleep 50,
          Sys (Dynlib_get_list ''game_patch.prx'' 0), Sys (Dynlib_unload_prx 9),
          Sys (Dynlib_get_list ''cheat_manager.prx'' 0),
          Sys (Dynlib_get_list ''browser_patch.prx'' 0),
          Sleep 200,
          Sys (Open ''/data/GoldHEN/plugins.ini'' 0), Sys (Read 4 0x1000), Sys (Close 4),
          Sys (Dynlib_load_prx ''/data/GoldHEN/plugins/game_patch.prx'' 0),
          Sleep 200]\<rparr>)"
proof -
  have path: "config_path createPluginFixPayload = ''/data/GoldHEN/config.ini''"
    by (simp add: createPluginFixPayload_def)
  show ?thesis
    unfolding reactivatePlugins_def path
    by (simp add: bindP_def [of "for_each _ _"] bindP_def [of "forcePluginsReload _ _"]
        scripted_operations scripted_reload retP_def)
qed

text \<open>
  C10. Whatever the capability answers, the reactivation returns, and its events are, in
  this order: those of the four setting operations in the order of the list, each
  followed by the delay of 50 ms, with the delay of 100 ms after the second; the unload
  attempts for the three plugins of the fixed set, in its order; the delay of 200 ms; the
  events of the reload from the manifest; the delay of 200 ms. So whenever a load call is
  issued, the three lookups of the unload step have all been issued before it, and no
  unload attempt is issued after it.
\<close>

theorem reactivation_order:
  "\<exists>s' t1 t2 t3 t4 un ld.
     reactivatePlugins ch createPluginFixPayload s = (Inr (), s') \<and>
     trace s' =
       trace s @ (t1 @ [Sleep 50] @ t2 @ [Sleep 50] @ [Sleep 100] @ t3 @ [Sleep 50] @ t4 @ [Sleep 50])
         @ un @ [Sleep 200] @ ld @ [Sleep 200] \<and>
     setting_segment ''/data/GoldHEN/config.ini'' ''enable_plugins_loader'' ''0'' t1 \<and>
     setting_segment ''/data/GoldHEN/config.ini'' ''enable_game_patch_plugin'' ''0'' t2 \<and>
     setting_segment ''/data/GoldHEN/config.ini'' ''enable_plugins_loader'' ''1'' t3 \<and>
     setting_segment ''/data/GoldHEN/config.ini'' ''enable_game_patch_plugin'' ''1'' t4 \<and>
     unload_segment un \<and> load_segment ld \<and>
     (\<forall>pre e post. trace s' = trace s @ pre @ e # post \<and> is_load_call e \<longrightarrow>
        lookups pre = plugins_to_unload \<and> list_all (\<lambda>x. \<not> is_unload_attempt x) post)"
proof -
  obtain s' t1 t2 t3 t4 un ld where run:
    "reactivatePlugins ch createPluginFixPayload s = (Inr (), s')"
    "trace s' =
       trace s @ (t1 @ [Sleep 50] @ t2 @ [Sleep 50] @ [Sleep 100] @ t3 @ [Sleep 50] @ t4 @ [Sleep 50])
         @ un @ [Sleep 200] @ ld @ [Sleep 200]"
    "setting_segment ''/data/GoldHEN/config.ini'' ''enable_plugins_loader'' ''0'' t1"
    "setting_segment ''/data/GoldHEN/config.ini'' ''enable_game_patch_plugin'' ''0'' t2"
    "setting_segment ''/data/GoldHEN/config.ini'' ''enable_plugins_loader'' ''1'' t3"
    "setting_segment ''/data/GoldHEN/config.ini'' ''enable_game_patch_plugin'' ''1'' t4"
    "unload_segment un" "load_segment ld"
    using reactivation_segments [of ch s] by blast
  let ?a = "t1 @ [Sleep 50] @ t2 @ [Sleep 50] @ [Sleep 100] @ t3 @ [Sleep 50] @ t4 @ [Sleep 50]"
  have quiet: "list_all (\<lambda>x. \<not> is_unload_attempt x) ?a" "list_all (\<lambda>x. \<not> is_load_call x) ?a"
    using setting_segment_kind [OF run(3)] setting_segment_kind [OF run(4)]
      setting_segment_kind [OF run(5)] setting_segment_kind [OF run(6)]
    by simp_all
  have order: "lookups pre = plugins_to_unload \<and> list_all (\<lambda>x. \<not> is_unload_attempt x) post"
    if "trace s' = trace s @ pre @ e # post" "is_load_call e" for pre e post
  proof -
    from that(1) run(2) have "?a @ un @ [Sleep 200] @ ld @ [Sleep 200] = pre @ e # post"
      by simp
    from loads_after_unloads [OF quiet run(7,8) this that(2)] show ?thesis .
  qed
  from run order show ?thesis
    by blast
qed

theorem reactivation_order_witness:
  "is_load_call (Sys (Dynlib_load_prx ''/data/GoldHEN/plugins/game_patch.prx'' 0)) \<and>
   trace (snd (reactivatePlugins scripted createPluginFixPayload (start run_replies run_manifest))) =
     trace (start run_replies run_manifest) @
       run_before_load @
       Sys (Dynlib_load_prx ''/data/GoldHEN/plugins/game_patch.prx'' 0) # [Sleep 200] \<and>
   lookups
     run_before_load =
     plugins_to_unload \<and>
   list_all (\<lambda>x. \<not> is_unload_attempt x) [Sleep 200]"
proof -
  let ?s = "start run_replies run_manifest"
  let ?e = "Sys (Dynlib_load_prx ''/data/GoldHEN/plugins/game_patch.prx'' 0)"
  obtain s' where run: "reactivatePlugins scripted createPluginFixPayload ?s = (Inr (), s')"
    and order: "\<And>pre e post. trace s' = trace ?s @ pre @ e # post \<Longrightarrow> is_load_call e \<Longrightarrow>
        lookups pre = plugins_to_unload \<and> list_all (\<lambda>x. \<not> is_unload_attempt x) post"
    using reactivation_order [of scripted ?s] by blast
  have load: "is_load_call ?e"
    by simp
  have tr: "trace (snd (reactivatePlugins scripted createPluginFixPayload ?s)) =
     trace ?s @
       run_before_load @
       ?e # [Sleep 200]"
    unfolding scripted_run by (simp add: start_def run_before_load_def)
  from run have "s' = snd (reactivatePlugins scripted createPluginFixPayload ?s)"
    by simp
  with tr have "trace s' = trace ?s @
       run_before_load @
       ?e # [Sleep 200]"
    by (simp only:)
  note res = order [OF this load]
  show ?thesis
    by (intro conjI load tr conjunct1 [OF res] conjunct2 [OF res])
qed

end
